theory Spec2Isabelle
  imports Main
begin

section \<open>JavaScript values and objects\<close>

text \<open>
  The plugin loader and the Android device watcher are TypeScript. The loader handles
  untyped values: descriptors come from \<^verbatim>\<open>JSON.parse\<close> and from a manifest, and the loaded
  module is whatever \<^verbatim>\<open>electronRequire\<close> returns. A value is a primitive or a reference to
  an object of the heap. Numbers are integers here (no \<^verbatim>\<open>NaN\<close>, no fractions).
\<close>

datatype jsval =
    JUndefined
  | JNull
  | JBool bool
  | JNum int
  | JStr string
  | JRef nat

text \<open>\<^verbatim>\<open>Boolean(v)\<close>, the test behind \<^verbatim>\<open>!v\<close>, \<^verbatim>\<open>a || b\<close> and \<^verbatim>\<open>.filter(Boolean)\<close>.\<close>

fun truthy :: "jsval \<Rightarrow> bool" where
  "truthy JUndefined = False"
| "truthy JNull = False"
| "truthy (JBool b) = b"
| "truthy (JNum n) = (n \<noteq> 0)"
| "truthy (JStr s) = (s \<noteq> [])"
| "truthy (JRef r) = True"

text \<open>\<^verbatim>\<open>a || b\<close>\<close>

definition js_or :: "jsval \<Rightarrow> jsval \<Rightarrow> jsval" where
  "js_or a b = (if truthy a then a else b)"

text \<open>
  An object of the heap (a module, or a plugin class): what reading a property gives
  (an absent property reads \<^verbatim>\<open>undefined\<close>), and whether
  \<^verbatim>\<open>obj.prototype instanceof FlipperBasePlugin\<close> holds. Assigning to a property changes
  what reading it gives, unless the property is in \<open>readonly\<close>: the properties of the
  object that cannot be written (not writable, or an accessor without a setter). The
  loader is a strict-mode module, so an assignment to one of them throws a
  \<^verbatim>\<open>TypeError\<close>. For a class, \<^verbatim>\<open>length\<close>, \<^verbatim>\<open>name\<close> and \<^verbatim>\<open>prototype\<close> are among them.
\<close>

record jsobj =
  props :: "string \<Rightarrow> jsval"
  extends_base :: bool
  readonly :: "string set"

type_synonym heap = "nat \<Rightarrow> jsobj"

text \<open>
  \<^verbatim>\<open>v[key]\<close> for a value that is not \<^verbatim>\<open>null\<close> or \<^verbatim>\<open>undefined\<close> (on those the read
  throws, see \<open>load\<close>); the properties read from a primitive here (\<^verbatim>\<open>default\<close>,
  \<^verbatim>\<open>prototype\<close>, \<^verbatim>\<open>name\<close>) are \<^verbatim>\<open>undefined\<close>.
\<close>

fun get_prop :: "heap \<Rightarrow> jsval \<Rightarrow> string \<Rightarrow> jsval" where
  "get_prop h (JRef r) key = props (h r) key"
| "get_prop h v key = JUndefined"

definition set_prop :: "heap \<Rightarrow> nat \<Rightarrow> string \<Rightarrow> jsval \<Rightarrow> heap" where
  "set_prop h r key v = h(r := (h r)\<lparr>props := (props (h r))(key := v)\<rparr>)"

text \<open>\<^verbatim>\<open>plugin.prototype instanceof FlipperBasePlugin\<close>\<close>

fun instanceof_base :: "heap \<Rightarrow> jsval \<Rightarrow> bool" where
  "instanceof_base h (JRef r) = extends_base (h r)"
| "instanceof_base h v = False"

section \<open>Plugin descriptors\<close>

text \<open>
  \<^verbatim>\<open>PluginDefinition = {id?: string; name: string; out?: string; gatekeeper?: string; entry?: string}\<close>,
  read from JSON: the keys in the order \<^verbatim>\<open>Object.keys\<close> gives them, each with its value.
  A key of a JavaScript object occurs once; \<open>field\<close> reads the first occurrence.
\<close>

type_synonym PluginDefinition = "(string \<times> jsval) list"

definition keys :: "PluginDefinition \<Rightarrow> string list" where
  "keys d = map fst d"

definition field :: "PluginDefinition \<Rightarrow> string \<Rightarrow> jsval" where
  "field d key = (case map_of d key of None \<Rightarrow> JUndefined | Some v \<Rightarrow> v)"

section \<open>The admission checks\<close>

text \<open>
  \<^verbatim>\<open>array.filter(pred)\<close> and \<^verbatim>\<open>array.map(f)\<close> where the callback also pushes onto an array
  (or writes the heap) that outlives the call: the callback takes and returns that state.
\<close>

fun filter_with :: "('s \<Rightarrow> 'a \<Rightarrow> bool \<times> 's) \<Rightarrow> 's \<Rightarrow> 'a list \<Rightarrow> 'a list \<times> 's" where
  "filter_with p s [] = ([], s)"
| "filter_with p s (x # xs) =
     (case p s x of (keep, s') \<Rightarrow>
        (case filter_with p s' xs of (ys, s'') \<Rightarrow> ((if keep then x # ys else ys), s'')))"

fun map_with :: "('s \<Rightarrow> 'a \<Rightarrow> 'b \<times> 's) \<Rightarrow> 's \<Rightarrow> 'a list \<Rightarrow> 'b list \<times> 's" where
  "map_with f s [] = ([], s)"
| "map_with f s (x # xs) =
     (case f s x of (y, s') \<Rightarrow>
        (case map_with f s' xs of (ys, s'') \<Rightarrow> (y # ys, s'')))"

text \<open>
  \<^verbatim>\<open>config().disabledPlugins\<close>: \<open>None\<close> when \<^verbatim>\<open>config()\<close> throws, and then the disabled list
  stays the empty set. \<^verbatim>\<open>disabledList.has(plugin.name)\<close> on a set of strings.
\<close>

definition disabledList :: "string set option \<Rightarrow> string set" where
  "disabledList config = (case config of None \<Rightarrow> {} | Some s \<Rightarrow> s)"

fun has :: "string set \<Rightarrow> jsval \<Rightarrow> bool" where
  "has S (JStr s) = (s \<in> S)"
| "has S v = False"

definition checkDisabled ::
  "string set option \<Rightarrow> PluginDefinition list \<Rightarrow> PluginDefinition \<Rightarrow> bool \<times> PluginDefinition list" where
  "checkDisabled config disabledPlugins plugin =
     (if has (disabledList config) (field plugin ''name'')
      then (False, disabledPlugins @ [plugin])
      else (True, disabledPlugins))"

text \<open>\<^verbatim>\<open>GK.get\<close> is the gatekeeper service, a parameter: \<open>gk key\<close> is its answer.\<close>

definition checkGK ::
  "(jsval \<Rightarrow> bool) \<Rightarrow> PluginDefinition list \<Rightarrow> PluginDefinition \<Rightarrow> bool \<times> PluginDefinition list" where
  "checkGK gk gatekeepedPlugins plugin =
     (if \<not> truthy (field plugin ''gatekeeper'') then (True, gatekeepedPlugins)
      else if \<not> gk (field plugin ''gatekeeper'') then (False, gatekeepedPlugins @ [plugin])
      else (True, gatekeepedPlugins))"

section \<open>Loading a plugin\<close>

text \<open>What the \<^verbatim>\<open>try\<close> block of \<^verbatim>\<open>requirePlugin\<close> can throw.\<close>

datatype load_error =
    RequireError string
  | TypeError
  | NotAFlipperBasePlugin jsval
  | IdNotAllowed

text \<open>
  The \<^verbatim>\<open>Object.keys(pluginDefinition).forEach\<close> loop on the class \<open>r\<close>. It throws on the
  key \<open>id\<close>, and where the assignment is to a property of the class that cannot be
  written. The heap comes back also when the loop throws: the assignments made before the
  throw stay.
\<close>

fun set_statics ::
  "PluginDefinition \<Rightarrow> string list \<Rightarrow> nat \<Rightarrow> heap \<Rightarrow> load_error option \<times> heap" where
  "set_statics d [] r h = (None, h)"
| "set_statics d (key # ks) r h =
     (if key = ''name'' then
        (if ''id'' \<in> readonly (h r) then (Some TypeError, h)
         else set_statics d ks r (set_prop h r ''id'' (js_or (props (h r) ''id'') (field d ''name''))))
      else if key = ''id'' then (Some IdNotAllowed, h)
      else if key \<in> readonly (h r) then (Some TypeError, h)
      else set_statics d ks r (set_prop h r key (js_or (props (h r) key) (field d key))))"

text \<open>
  The \<^verbatim>\<open>try\<close> block. \<open>reqFn\<close> is \<^verbatim>\<open>electronRequire\<close> (or the function passed in): \<open>Inl msg\<close>
  when it throws an error with that message, \<open>Inr v\<close> when it returns \<open>v\<close>.
\<close>

definition load ::
  "(jsval \<Rightarrow> string + jsval) \<Rightarrow> heap \<Rightarrow> PluginDefinition \<Rightarrow> (load_error + jsval) \<times> heap" where
  "load reqFn h pluginDefinition =
     (case reqFn (field pluginDefinition ''out'') of
        Inl msg \<Rightarrow> (Inl (RequireError msg), h)
      | Inr m \<Rightarrow>
          if m = JUndefined \<or> m = JNull then (Inl TypeError, h)
          else
            let plugin = (if truthy (get_prop h m ''default'') then get_prop h m ''default'' else m)
            in (case plugin of
                  JRef r \<Rightarrow>
                    if \<not> instanceof_base h plugin
                    then (Inl (NotAFlipperBasePlugin (get_prop h plugin ''name'')), h)
                    else (case set_statics pluginDefinition (keys pluginDefinition) r h of
                            (None, h') \<Rightarrow> (Inr plugin, h')
                          | (Some e, h') \<Rightarrow> (Inl e, h'))
                | _ \<Rightarrow> (Inl (NotAFlipperBasePlugin (get_prop h plugin ''name'')), h)))"

text \<open>
  \<^verbatim>\<open>requirePlugin(failedPlugins, reqFn)\<close>: the loaded class, or \<^verbatim>\<open>null\<close> after pushing the
  descriptor and the error onto \<open>failedPlugins\<close>.
\<close>

definition requirePlugin ::
  "(jsval \<Rightarrow> string + jsval) \<Rightarrow> (PluginDefinition \<times> load_error) list \<times> heap \<Rightarrow> PluginDefinition
     \<Rightarrow> jsval \<times> ((PluginDefinition \<times> load_error) list \<times> heap)" where
  "requirePlugin reqFn s pluginDefinition =
     (case s of (failedPlugins, h) \<Rightarrow>
        (case load reqFn h pluginDefinition of
           (Inr plugin, h') \<Rightarrow> (plugin, (failedPlugins, h'))
         | (Inl e, h') \<Rightarrow> (JNull, (failedPlugins @ [(pluginDefinition, e)], h'))))"

section \<open>The pipeline\<close>

text \<open>
  The default export of the plugin loader, up to the four dispatches: \<open>bundled\<close> and
  \<open>dynamic\<close> are what \<^verbatim>\<open>getBundledPlugins()\<close> and \<^verbatim>\<open>getDynamicPlugins()\<close> return.
\<close>

record admission =
  initialPlugins :: "jsval list"
  gatekeepedPlugins :: "PluginDefinition list"
  disabledPlugins :: "PluginDefinition list"
  failedPlugins :: "(PluginDefinition \<times> load_error) list"
  heap_after :: heap

definition plugin_loader ::
  "string set option \<Rightarrow> (jsval \<Rightarrow> bool) \<Rightarrow> (jsval \<Rightarrow> string + jsval) \<Rightarrow> heap
     \<Rightarrow> PluginDefinition list \<Rightarrow> PluginDefinition list \<Rightarrow> admission" where
  "plugin_loader config gk reqFn h bundled dynamic =
     (case filter_with (checkDisabled config) [] (bundled @ dynamic) of (l1, dis) \<Rightarrow>
      (case filter_with (checkGK gk) [] l1 of (l2, gkd) \<Rightarrow>
       (case map_with (requirePlugin reqFn) ([], h) l2 of (l3, (failed, h')) \<Rightarrow>
          \<lparr>initialPlugins = filter truthy l3,
           gatekeepedPlugins = gkd,
           disabledPlugins = dis,
           failedPlugins = failed,
           heap_after = h'\<rparr>)))"


section \<open>Admission outcomes\<close>

text \<open>The conditions under which the two checks reject a descriptor.\<close>

definition is_disabled :: "string set option \<Rightarrow> PluginDefinition \<Rightarrow> bool" where
  "is_disabled config d = has (disabledList config) (field d ''name'')"

definition is_gatekept :: "(jsval \<Rightarrow> bool) \<Rightarrow> PluginDefinition \<Rightarrow> bool" where
  "is_gatekept gk d = (truthy (field d ''gatekeeper'') \<and> \<not> gk (field d ''gatekeeper''))"

text \<open>
  The specification's reading of the pipeline, to compare with \<open>plugin_loader\<close>: each
  descriptor, in order, gets one outcome. Disable check first, then the gatekeeper check,
  then the load; a load that throws gives \<open>Failed\<close>. \<open>Admitted\<close> also records the
  descriptor the class was loaded for. The heap is threaded through the loads, as the
  classes are shared objects.
\<close>

datatype outcome =
    Admitted PluginDefinition jsval
  | Disabled PluginDefinition
  | Gatekept PluginDefinition
  | Failed PluginDefinition load_error

fun descriptor_of :: "outcome \<Rightarrow> PluginDefinition" where
  "descriptor_of (Admitted d p) = d"
| "descriptor_of (Disabled d) = d"
| "descriptor_of (Gatekept d) = d"
| "descriptor_of (Failed d e) = d"

definition admit ::
  "string set option \<Rightarrow> (jsval \<Rightarrow> bool) \<Rightarrow> (jsval \<Rightarrow> string + jsval) \<Rightarrow> heap \<Rightarrow> PluginDefinition
     \<Rightarrow> outcome \<times> heap" where
  "admit config gk reqFn h d =
     (if is_disabled config d then (Disabled d, h)
      else if is_gatekept gk d then (Gatekept d, h)
      else (case load reqFn h d of
              (Inr p, h') \<Rightarrow> (Admitted d p, h')
            | (Inl e, h') \<Rightarrow> (Failed d e, h')))"

definition admit_all ::
  "string set option \<Rightarrow> (jsval \<Rightarrow> bool) \<Rightarrow> (jsval \<Rightarrow> string + jsval) \<Rightarrow> heap \<Rightarrow> PluginDefinition list
     \<Rightarrow> outcome list \<times> heap" where
  "admit_all config gk reqFn h ds = map_with (admit config gk reqFn) h ds"

text \<open>The four buckets of a list of outcomes.\<close>

fun admitted_of :: "outcome list \<Rightarrow> jsval list" where
  "admitted_of [] = []"
| "admitted_of (Admitted d p # os) = p # admitted_of os"
| "admitted_of (_ # os) = admitted_of os"

fun disabled_of :: "outcome list \<Rightarrow> PluginDefinition list" where
  "disabled_of [] = []"
| "disabled_of (Disabled d # os) = d # disabled_of os"
| "disabled_of (_ # os) = disabled_of os"

fun gatekept_of :: "outcome list \<Rightarrow> PluginDefinition list" where
  "gatekept_of [] = []"
| "gatekept_of (Gatekept d # os) = d # gatekept_of os"
| "gatekept_of (_ # os) = gatekept_of os"

fun failed_of :: "outcome list \<Rightarrow> (PluginDefinition \<times> load_error) list" where
  "failed_of [] = []"
| "failed_of (Failed d e # os) = (d, e) # failed_of os"
| "failed_of (_ # os) = failed_of os"

section \<open>Android devices\<close>

text \<open>
  A device as the tracker of the adb client reports it: \<^verbatim>\<open>{id, type}\<close>.
\<close>

record device_data =
  dev_id :: string
  dev_type :: string

datatype device_type = Emulator | Physical

text \<open>
  A device of the store (\<^verbatim>\<open>BaseDevice\<close>): \<open>android\<close> is \<^verbatim>\<open>device instanceof AndroidDevice\<close>.
  The title is \<open>None\<close> when the name passed to the constructor is \<^verbatim>\<open>undefined\<close>.
\<close>

record BaseDevice =
  serial :: string
  deviceType :: device_type
  title :: "string option"
  isArchived :: bool
  android :: bool

text \<open>\<^verbatim>\<open>new AndroidDevice(device.id, type, name, adbClient)\<close>\<close>

definition AndroidDevice :: "string \<Rightarrow> device_type \<Rightarrow> string option \<Rightarrow> BaseDevice" where
  "AndroidDevice s t name =
     \<lparr>serial = s, deviceType = t, title = name, isArchived = False, android = True\<rparr>"

definition startsWith :: "string \<Rightarrow> string \<Rightarrow> bool" where
  "startsWith s p = (take (length p) s = p)"

definition endsWith :: "string \<Rightarrow> string \<Rightarrow> bool" where
  "endsWith s p = (length p \<le> length s \<and> drop (length s - length p) s = p)"

text \<open>
  A string of the model is the UTF-8 encoding of the JavaScript string, one \<open>char\<close> per
  byte (the output of the probe is decoded as UTF-8 by \<^verbatim>\<open>child_process.exec\<close>). The
  comparisons of the watcher are the same on both. \<open>white_space\<close> lists the encodings of
  the code points \<^verbatim>\<open>String.prototype.trim\<close> strips, the white space and the line
  terminators of ECMAScript: U+0009 to U+000D, U+0020, U+00A0, U+1680, U+2000 to U+200A,
  U+2028, U+2029, U+202F, U+205F, U+3000 and U+FEFF. \<open>line_terminators\<close> lists those the
  dot of a regular expression does not match: U+000A, U+000D, U+2028 and U+2029.
\<close>

definition white_space :: "string list" where
  "white_space =
     [[CHR 0x09], [CHR 0x0A], [CHR 0x0B], [CHR 0x0C], [CHR 0x0D], [CHR 0x20],
      [CHR 0xC2, CHR 0xA0],
      [CHR 0xE1, CHR 0x9A, CHR 0x80],
      [CHR 0xE2, CHR 0x80, CHR 0x80], [CHR 0xE2, CHR 0x80, CHR 0x81], [CHR 0xE2, CHR 0x80, CHR 0x82],
      [CHR 0xE2, CHR 0x80, CHR 0x83], [CHR 0xE2, CHR 0x80, CHR 0x84], [CHR 0xE2, CHR 0x80, CHR 0x85],
      [CHR 0xE2, CHR 0x80, CHR 0x86], [CHR 0xE2, CHR 0x80, CHR 0x87], [CHR 0xE2, CHR 0x80, CHR 0x88],
      [CHR 0xE2, CHR 0x80, CHR 0x89], [CHR 0xE2, CHR 0x80, CHR 0x8A],
      [CHR 0xE2, CHR 0x80, CHR 0xA8], [CHR 0xE2, CHR 0x80, CHR 0xA9], [CHR 0xE2, CHR 0x80, CHR 0xAF],
      [CHR 0xE2, CHR 0x81, CHR 0x9F],
      [CHR 0xE3, CHR 0x80, CHR 0x80],
      [CHR 0xEF, CHR 0xBB, CHR 0xBF]]"

definition line_terminators :: "string list" where
  "line_terminators =
     [[CHR 0x0A], [CHR 0x0D], [CHR 0xE2, CHR 0x80, CHR 0xA8], [CHR 0xE2, CHR 0x80, CHR 0xA9]]"

text \<open>The rest of \<open>s\<close> after the first of the \<open>codes\<close> that \<open>s\<close> starts with.\<close>

fun strip_one :: "string list \<Rightarrow> string \<Rightarrow> string option" where
  "strip_one [] s = None"
| "strip_one (w # ws) s =
     (if w \<noteq> [] \<and> take (length w) s = w then Some (drop (length w) s) else strip_one ws s)"

text \<open>\<open>s\<close> without the \<open>codes\<close> it starts with.\<close>

function strip_leading :: "string list \<Rightarrow> string \<Rightarrow> string" where
  "strip_leading codes s =
     (case strip_one codes s of None \<Rightarrow> s | Some rest \<Rightarrow> strip_leading codes rest)"
  by pat_completeness auto
termination
proof (relation "measure (\<lambda>(codes, s). length s)")
  show "wf (measure (\<lambda>(codes, s). length s))" by simp
next
  fix codes :: "string list" and s rest :: string
  assume "strip_one codes s = Some rest"
  moreover have "w \<noteq> [] \<Longrightarrow> take (length w) s = w \<Longrightarrow> length (drop (length w) s) < length s" for w
    by (cases s; cases w) auto
  ultimately have "length rest < length s"
    by (induction codes) (auto split: if_splits simp del: length_drop)
  then show "((codes, rest), (codes, s)) \<in> measure (\<lambda>(codes, s). length s)" by simp
qed

text \<open>
  \<^verbatim>\<open>String.prototype.trim\<close>: the white space at the start is stripped, then, on the
  reversed string, the white space at the end.
\<close>

definition trim :: "string \<Rightarrow> string" where
  "trim s = rev (strip_leading (map rev white_space) (rev (strip_leading white_space s)))"

text \<open>The rest of \<open>s\<close> after its first line terminator, and what follows the last one.\<close>

fun after_terminator :: "string \<Rightarrow> string option" where
  "after_terminator [] = None"
| "after_terminator (c # cs) =
     (case strip_one line_terminators (c # cs) of
        Some rest \<Rightarrow> Some rest
      | None \<Rightarrow> after_terminator cs)"

function last_line :: "string \<Rightarrow> string" where
  "last_line s = (case after_terminator s of None \<Rightarrow> s | Some rest \<Rightarrow> last_line rest)"
  by pat_completeness auto
termination
proof (relation "measure length")
  show "wf (measure length)" by simp
next
  fix s rest :: string
  assume "after_terminator s = Some rest"
  then have "length rest < length s"
  proof (induction s)
    case Nil
    then show ?case by simp
  next
    case (Cons c cs)
    show ?case
    proof (cases "strip_one line_terminators (c # cs)")
      case None
      with Cons show ?thesis by simp
    next
      case (Some r)
      have "w \<noteq> [] \<Longrightarrow> take (length w) (c # cs) = w
          \<Longrightarrow> length (drop (length w) (c # cs)) < length (c # cs)" for w
        by (cases w) auto
      then have "strip_one codes (c # cs) = Some r \<Longrightarrow> length r < length (c # cs)" for codes
        by (induction codes) (auto split: if_splits simp del: length_drop drop_Cons')
      with Some Cons.prems show ?thesis by simp
    qed
  qed
  then show "(rest, s) \<in> measure length" by simp
qed

text \<open>
  \<^verbatim>\<open>t.match(/(.*)\r\nOK$/)\<close>, as \<open>Some\<close> of the group when the string matches: the string
  has to end in carriage return, line feed, \<^verbatim>\<open>OK\<close>, and the group is what stands before
  that on the same line (the dot matches no line terminator, and the leftmost match
  starts right after the last line terminator before the marker).
\<close>

definition match_avd_name :: "string \<Rightarrow> string option" where
  "match_avd_name t =
     (if endsWith t [CHR 0x0D, CHR 0x0A, CHR ''O'', CHR ''K'']
      then Some (last_line (take (length t - 4) t))
      else None)"

text \<open>
  The callback \<^verbatim>\<open>getRunningEmulatorName\<close> gives to \<^verbatim>\<open>child_process.exec\<close>, called with
  \<open>error\<close> (\<open>None\<close> for \<^verbatim>\<open>null\<close>) and \<open>data\<close> (\<open>Some\<close> of a string, \<open>None\<close> for
  \<^verbatim>\<open>null\<close> or anything that is not a string): \<open>Inr r\<close> when the promise resolves with \<open>r\<close>
  (\<open>None\<close> for \<^verbatim>\<open>null\<close>), \<open>Inl error\<close> when it rejects. The else branch of the source
  is kept, but \<^verbatim>\<open>child_process.exec\<close> is called with the encoding \<^verbatim>\<open>utf-8\<close> and then always
  passes a string, the empty one when the probe gave nothing.
\<close>

definition getRunningEmulatorName ::
  "string option \<Rightarrow> string option \<Rightarrow> string option + string option" where
  "getRunningEmulatorName error data =
     (case data of
        Some s \<Rightarrow> Inr (match_avd_name (trim s))
      | None \<Rightarrow> Inl error)"

text \<open>\<^verbatim>\<open>a || b\<close> on a string or \<^verbatim>\<open>null\<close> and a string or \<^verbatim>\<open>undefined\<close>.\<close>

definition or_name :: "string option \<Rightarrow> string option \<Rightarrow> string option" where
  "or_name a b = (case a of Some s \<Rightarrow> if s \<noteq> [] then Some s else b | None \<Rightarrow> b)"

text \<open>
  \<^verbatim>\<open>createDevice\<close> is a promise with two points where it waits: for
  \<^verbatim>\<open>adbClient.getProperties\<close>, and, for an emulator, for the name probe.
  \<open>createDevice_type\<close> is the type computed first; \<open>createDevice_props\<close> runs when the
  properties arrive and \<open>createDevice_probed\<close> when the probe's callback has run.
  \<open>Resolved d\<close>: the promise resolves with \<open>d\<close>. \<open>NeedsProbe name\<close>: it waits for the probe,
  holding the model name. \<open>Never\<close>: the probe's promise was rejected inside the
  \<^verbatim>\<open>async\<close> callback, which has no handler, so \<^verbatim>\<open>resolve\<close> is never called
  (and \<^verbatim>\<open>reject\<close> is called nowhere). The port forwarding set up by
  \<^verbatim>\<open>androidDevice.reverse\<close> is not modelled.
\<close>

datatype progress = Resolved BaseDevice | NeedsProbe "string option" | Never

definition createDevice_type :: "device_data \<Rightarrow> device_type" where
  "createDevice_type device =
     (if dev_type device \<noteq> ''device'' \<or> startsWith (dev_id device) ''emulator''
      then Emulator else Physical)"

definition createDevice_props :: "device_data \<Rightarrow> (string \<rightharpoonup> string) \<Rightarrow> progress" where
  "createDevice_props device properties =
     (let name = properties ''ro.product.model'' in
      if createDevice_type device = Emulator then NeedsProbe name
      else Resolved (AndroidDevice (dev_id device) (createDevice_type device) name))"

definition createDevice_probed ::
  "device_data \<Rightarrow> string option \<Rightarrow> string option \<Rightarrow> string option \<Rightarrow> progress" where
  "createDevice_probed device name error data =
     (case getRunningEmulatorName error data of
        Inl e \<Rightarrow> Never
      | Inr r \<Rightarrow> Resolved (AndroidDevice (dev_id device) (createDevice_type device) (or_name r name)))"

section \<open>The store and the watcher\<close>

text \<open>
  The state the watcher works on: the devices of the store
  (\<^verbatim>\<open>store.getState().connections.devices\<close>), the calls of \<^verbatim>\<open>logger.track\<close>, the calls of
  \<^verbatim>\<open>registerDevice\<close> that wait for \<^verbatim>\<open>createDevice\<close>, the delays of the pending
  \<^verbatim>\<open>setTimeout(watchAndroidDevices, ms)\<close>, the number of calls of \<^verbatim>\<open>watchAndroidDevices\<close>,
  and whether the cleanup function has killed the adb client.
\<close>

datatype phase = AwaitProperties | AwaitProbe "string option" | Settled | Stuck

record watcher_state =
  devices :: "BaseDevice list"
  tracked :: "(string \<times> string) list"
  inflight :: "(device_data \<times> phase) list"
  timers :: "nat list"
  watching :: nat
  killed :: bool

definition initial_state :: watcher_state where
  "initial_state =
     \<lparr>devices = [], tracked = [], inflight = [], timers = [], watching = 1, killed = False\<rparr>"

datatype action = REGISTER_DEVICE BaseDevice | UNREGISTER_DEVICES "string set"

text \<open>
  Modelled from the spec: the reducer of the store for the two device actions
  (\<^verbatim>\<open>reducers/connections\<close>, which is not among the sources). The specification describes
  the registry as a ``mapping from device identifier to Device Handle plus archived
  flag'': \<^verbatim>\<open>UNREGISTER_DEVICES\<close> deletes the entries whose identifier is in the payload,
  and \<^verbatim>\<open>REGISTER_DEVICE\<close> stores the handle under its identifier, in place of an entry
  with the same identifier. The devices stay a list, as the watcher reads them with
  \<^verbatim>\<open>filter\<close>, \<^verbatim>\<open>map\<close> and \<^verbatim>\<open>find\<close>.
\<close>

fun dispatch :: "action \<Rightarrow> watcher_state \<Rightarrow> watcher_state" where
  "dispatch (UNREGISTER_DEVICES payload) s =
     s\<lparr>devices := filter (\<lambda>device. serial device \<notin> payload) (devices s)\<rparr>"
| "dispatch (REGISTER_DEVICE payload) s =
     s\<lparr>devices := filter (\<lambda>device. serial device \<noteq> serial payload) (devices s) @ [payload]\<rparr>"

definition track :: "string \<Rightarrow> string \<Rightarrow> watcher_state \<Rightarrow> watcher_state" where
  "track event s_id s = s\<lparr>tracked := tracked s @ [(event, s_id)]\<rparr>"

text \<open>
  \<^verbatim>\<open>registerDevice\<close> up to its \<^verbatim>\<open>await\<close>: the call of \<^verbatim>\<open>createDevice\<close> is under way.
\<close>

definition registerDevice :: "device_data \<Rightarrow> watcher_state \<Rightarrow> watcher_state" where
  "registerDevice deviceData s = s\<lparr>inflight := inflight s @ [(deviceData, AwaitProperties)]\<rparr>"

text \<open>
  \<^verbatim>\<open>registerDevice\<close> after its \<^verbatim>\<open>await\<close>, once \<^verbatim>\<open>createDevice\<close> has resolved with
  \<open>androidDevice\<close>: one synchronous run. (The callbacks of the plugins, called last, work on
  another part of the store.) \<open>reduce\<close> is what \<^verbatim>\<open>store.dispatch\<close> does with an action;
  \<open>registerDevice_resume\<close> is the function on the store modelled above.
\<close>

definition registerDevice_resume_with ::
  "(action \<Rightarrow> watcher_state \<Rightarrow> watcher_state) \<Rightarrow> BaseDevice \<Rightarrow> watcher_state \<Rightarrow> watcher_state" where
  "registerDevice_resume_with reduce androidDevice s =
     (let s0 = track ''register-device'' (serial androidDevice) s;
          reconnectedDevices =
            map serial (filter (\<lambda>device. serial device = serial androidDevice \<and> isArchived device)
                          (devices s0));
          s1 = reduce (UNREGISTER_DEVICES (set reconnectedDevices)) s0
      in reduce (REGISTER_DEVICE androidDevice) s1)"

definition registerDevice_resume :: "BaseDevice \<Rightarrow> watcher_state \<Rightarrow> watcher_state" where
  "registerDevice_resume androidDevice s = registerDevice_resume_with dispatch androidDevice s"

text \<open>
  \<^verbatim>\<open>unregisterDevices\<close>. \<open>archive\<close> is the method \<^verbatim>\<open>device.archive()\<close> of the device classes,
  which are not among the sources: a parameter, \<open>None\<close> when the method returns nothing
  (\<^verbatim>\<open>.filter(Boolean)\<close> drops that).
\<close>

definition unregisterDevices ::
  "(BaseDevice \<Rightarrow> BaseDevice option) \<Rightarrow> string list \<Rightarrow> watcher_state \<Rightarrow> watcher_state" where
  "unregisterDevices archive deviceIds s =
     (let s0 = fold (\<lambda>i. track ''unregister-device'' i) deviceIds s;
          archivedDevices =
            List.map_filter
              (\<lambda>i. case find (\<lambda>device. serial device = i) (devices s0) of
                     Some device \<Rightarrow> if \<not> isArchived device then archive device else None
                   | None \<Rightarrow> None)
              deviceIds;
          s1 = dispatch (UNREGISTER_DEVICES (set deviceIds)) s0
      in fold (\<lambda>payload. dispatch (REGISTER_DEVICE payload)) archivedDevices s1)"

text \<open>The handlers of the tracker's events. A handler that throws gives \<open>Inl\<close> of the message.\<close>

definition on_error ::
  "(BaseDevice \<Rightarrow> BaseDevice option) \<Rightarrow> string \<Rightarrow> watcher_state \<Rightarrow> string + watcher_state" where
  "on_error archive message s =
     (if message = ''Connection closed'' then
        (let deviceIDsToRemove = map serial (filter android (devices s));
             s1 = unregisterDevices archive deviceIDsToRemove s
         in Inr (s1\<lparr>timers := timers s1 @ [500]\<rparr>))
      else Inl message)"

definition on_add :: "device_data \<Rightarrow> watcher_state \<Rightarrow> watcher_state" where
  "on_add device s = (if dev_type device \<noteq> ''offline'' then registerDevice device s else s)"

definition on_change ::
  "(BaseDevice \<Rightarrow> BaseDevice option) \<Rightarrow> device_data \<Rightarrow> watcher_state \<Rightarrow> watcher_state" where
  "on_change archive device s =
     (if dev_type device = ''offline'' then unregisterDevices archive [dev_id device] s
      else registerDevice device s)"

definition on_remove ::
  "(BaseDevice \<Rightarrow> BaseDevice option) \<Rightarrow> device_data \<Rightarrow> watcher_state \<Rightarrow> watcher_state" where
  "on_remove archive device s = unregisterDevices archive [dev_id device] s"

text \<open>
  What the event loop can run next: a tracker event, the arrival of the properties or of
  the probe's callback for the \<open>n\<close>-th call of \<^verbatim>\<open>registerDevice\<close>, a timer, or the cleanup
  function the watcher returned (\<^verbatim>\<open>client.kill()\<close>). An arrival for a call that does not
  wait for it changes nothing.
\<close>

datatype event =
    TrackerError string
  | TrackerAdd device_data
  | TrackerChange device_data
  | TrackerRemove device_data
  | PropertiesArrived nat "string \<rightharpoonup> string"
  | ProbeCallback nat "string option" "string option"
  | TimerFired
  | Cleanup

definition settle :: "nat \<Rightarrow> device_data \<Rightarrow> progress \<Rightarrow> watcher_state \<Rightarrow> watcher_state" where
  "settle n device p s =
     (case p of
        Resolved androidDevice \<Rightarrow>
          registerDevice_resume androidDevice (s\<lparr>inflight := (inflight s)[n := (device, Settled)]\<rparr>)
      | NeedsProbe name \<Rightarrow> s\<lparr>inflight := (inflight s)[n := (device, AwaitProbe name)]\<rparr>
      | Never \<Rightarrow> s\<lparr>inflight := (inflight s)[n := (device, Stuck)]\<rparr>)"

fun step ::
  "(BaseDevice \<Rightarrow> BaseDevice option) \<Rightarrow> event \<Rightarrow> watcher_state \<Rightarrow> string + watcher_state" where
  "step archive (TrackerError message) s = on_error archive message s"
| "step archive (TrackerAdd device) s = Inr (on_add device s)"
| "step archive (TrackerChange device) s = Inr (on_change archive device s)"
| "step archive (TrackerRemove device) s = Inr (on_remove archive device s)"
| "step archive (PropertiesArrived n properties) s =
     (if n < length (inflight s) \<and> snd (inflight s ! n) = AwaitProperties
      then Inr (settle n (fst (inflight s ! n)) (createDevice_props (fst (inflight s ! n)) properties) s)
      else Inr s)"
| "step archive (ProbeCallback n error data) s =
     (if n < length (inflight s)
      then (case snd (inflight s ! n) of
              AwaitProbe name \<Rightarrow>
                Inr (settle n (fst (inflight s ! n))
                       (createDevice_probed (fst (inflight s ! n)) name error data) s)
            | _ \<Rightarrow> Inr s)
      else Inr s)"
| "step archive TimerFired s =
     (case timers s of
        [] \<Rightarrow> Inr s
      | t # ts \<Rightarrow> Inr (s\<lparr>timers := ts, watching := watching s + 1\<rparr>))"
| "step archive Cleanup s = Inr (s\<lparr>killed := True\<rparr>)"

text \<open>A run of the event loop; it ends at the first handler that throws.\<close>

fun run ::
  "(BaseDevice \<Rightarrow> BaseDevice option) \<Rightarrow> event list \<Rightarrow> watcher_state \<Rightarrow> string + watcher_state" where
  "run archive [] s = Inr s"
| "run archive (e # es) s =
     (case step archive e s of Inl err \<Rightarrow> Inl err | Inr s' \<Rightarrow> run archive es s')"

text \<open>
  Modelled from the spec: \<^verbatim>\<open>device.archive()\<close> as the examples below use it. The
  specification has the entry marked archived and kept (``a device handle retained after
  disconnection''): the same handle with the archived flag set.
\<close>

definition mark_archived :: "BaseDevice \<Rightarrow> BaseDevice option" where
  "mark_archived device = Some (device\<lparr>isArchived := True\<rparr>)"


section \<open>Example inputs\<close>

definition example_heap :: heap where
  "example_heap =
     (\<lambda>r. \<lparr>props = (\<lambda>key. JUndefined), extends_base = True,
           readonly = {''length'', ''name'', ''prototype''}\<rparr>)"

definition example_reqFn :: "jsval \<Rightarrow> string + jsval" where
  "example_reqFn path =
     (if path = JStr ''a.js'' then Inr (JRef 0)
      else if path = JStr ''b.js'' then Inr (JRef 1)
      else if path = JStr ''c.js'' then Inr (JRef 2)
      else Inl ''Cannot find module'')"

definition example_gk :: "jsval \<Rightarrow> bool" where
  "example_gk key = (key \<noteq> JStr ''gk_b'')"

definition plugin_A :: PluginDefinition where
  "plugin_A = [(''name'', JStr ''A''), (''out'', JStr ''a.js'')]"

definition plugin_B :: PluginDefinition where
  "plugin_B = [(''name'', JStr ''B''), (''gatekeeper'', JStr ''gk_b''), (''out'', JStr ''b.js'')]"

definition plugin_C :: PluginDefinition where
  "plugin_C = [(''name'', JStr ''C''), (''out'', JStr ''c.js'')]"

definition plugin_C_gated :: PluginDefinition where
  "plugin_C_gated = [(''name'', JStr ''C''), (''gatekeeper'', JStr ''gk_b''), (''out'', JStr ''c.js'')]"

definition plugin_A_with_id :: PluginDefinition where
  "plugin_A_with_id = [(''name'', JStr ''A''), (''id'', JStr ''a''), (''out'', JStr ''a.js'')]"

definition plugin_C_with_id :: PluginDefinition where
  "plugin_C_with_id = [(''name'', JStr ''C''), (''id'', JStr ''c''), (''out'', JStr ''c.js'')]"

definition plugin_A_versioned :: PluginDefinition where
  "plugin_A_versioned = [(''name'', JStr ''A''), (''out'', JStr ''a.js''), (''version'', JNum 2)]"

definition heap_version_zero :: heap where
  "heap_version_zero =
     (\<lambda>r. \<lparr>props = (\<lambda>key. if key = ''version'' then JNum 0 else JUndefined), extends_base = True,
           readonly = {''length'', ''name'', ''prototype''}\<rparr>)"

definition plugin_unnamed :: PluginDefinition where
  "plugin_unnamed = [(''name'', JStr []), (''out'', JStr ''a.js'')]"

definition emulator_5554 :: device_data where
  "emulator_5554 = \<lparr>dev_id = ''emulator-5554'', dev_type = ''device''\<rparr>"

definition offline_5554 :: device_data where
  "offline_5554 = \<lparr>dev_id = ''emulator-5554'', dev_type = ''offline''\<rparr>"

definition example_properties :: "string \<rightharpoonup> string" where
  "example_properties = [''ro.product.model'' \<mapsto> ''sdk_gphone'']"

text \<open>What the emulator console answers to \<^verbatim>\<open>avd name\<close>.\<close>

definition probe_output :: string where
  "probe_output = ''Pixel_3'' @ [CHR 0x0D, CHR 0x0A] @ ''OK'' @ [CHR 0x0D, CHR 0x0A]"

definition iphone :: BaseDevice where
  "iphone = \<lparr>serial = ''iphone-1'', deviceType = Physical, title = Some ''iPhone'',
              isArchived = False, android = False\<rparr>"

definition connected_state :: watcher_state where
  "connected_state =
     initial_state\<lparr>devices := [iphone, AndroidDevice ''emulator-5554'' Emulator (Some ''Pixel_3'')]\<rparr>"



text \<open>The registration of the emulator waits for the name probe.\<close>

definition probing_state :: watcher_state where
  "probing_state = initial_state\<lparr>inflight := [(emulator_5554, AwaitProbe (Some ''sdk_gphone''))]\<rparr>"

section \<open>The pipeline partitions its input\<close>

lemma filter_with_checkDisabled:
  "filter_with (checkDisabled config) acc ds =
     (filter (\<lambda>d. \<not> is_disabled config d) ds, acc @ filter (is_disabled config) ds)"
  by (induction ds arbitrary: acc) (simp_all add: checkDisabled_def is_disabled_def)

lemma filter_with_checkGK:
  "filter_with (checkGK gk) acc ds =
     (filter (\<lambda>d. \<not> is_gatekept gk d) ds, acc @ filter (is_gatekept gk) ds)"
  by (induction ds arbitrary: acc) (auto simp: checkGK_def is_gatekept_def)

lemma load_Inr_ref: "load reqFn h d = (Inr p, h') \<Longrightarrow> \<exists>r. p = JRef r"
proof -
  assume a: "load reqFn h d = (Inr p, h')"
  obtain m where m: "reqFn (field d ''out'') = Inr m"
    using a by (cases "reqFn (field d ''out'')") (auto simp: load_def)
  define plugin where "plugin = (if truthy (get_prop h m ''default'') then get_prop h m ''default'' else m)"
  from a m have "p = plugin"
    by (cases plugin) (auto simp: load_def plugin_def [symmetric] Let_def split: if_splits prod.splits option.splits)
  moreover from a m have "\<exists>r. plugin = JRef r"
    by (cases plugin) (auto simp: load_def plugin_def [symmetric] Let_def split: if_splits prod.splits option.splits)
  ultimately show ?thesis by simp
qed

lemma map_with_length: "map_with f s xs = (ys, s') \<Longrightarrow> length ys = length xs"
  by (induction xs arbitrary: s ys) (auto split: prod.splits)

lemma map_with_admit_descriptors:
  "map_with (admit config gk reqFn) h ds = (outs, hf) \<Longrightarrow> map descriptor_of outs = ds"
  by (induction ds arbitrary: h outs)
    (auto simp: admit_def split: prod.splits sum.splits if_splits)

lemma requirePlugin_step:
  "requirePlugin reqFn (acc, h) d =
     (case load reqFn h d of
        (Inr p, h') \<Rightarrow> (p, (acc, h'))
      | (Inl e, h') \<Rightarrow> (JNull, (acc @ [(d, e)], h')))"
  by (simp add: requirePlugin_def)

lemma stages_outcomes:
  "admit_all config gk reqFn h ds = (outs, hf) \<Longrightarrow>
     map_with (requirePlugin reqFn) (acc, h)
        (filter (\<lambda>d. \<not> is_disabled config d \<and> \<not> is_gatekept gk d) ds) = (l3, (failed, h'))
   \<Longrightarrow> filter truthy l3 = admitted_of outs \<and> failed = acc @ failed_of outs \<and> h' = hf
     \<and> disabled_of outs = filter (is_disabled config) ds
     \<and> gatekept_of outs = filter (\<lambda>d. \<not> is_disabled config d \<and> is_gatekept gk d) ds"
proof (induction ds arbitrary: h outs acc l3 failed)
  case Nil
  then show ?case by (simp add: admit_all_def)
next
  case (Cons d ds)
  show ?case
  proof (cases "is_disabled config d")
    case True
    with Cons.prems obtain os where os: "admit_all config gk reqFn h ds = (os, hf)" "outs = Disabled d # os"
      by (auto simp: admit_all_def admit_def split: prod.splits)
    from Cons.IH [OF os(1)] Cons.prems(2) True os(2) show ?thesis by simp
  next
    case nd: False
    show ?thesis
    proof (cases "is_gatekept gk d")
      case True
      with nd Cons.prems obtain os where os: "admit_all config gk reqFn h ds = (os, hf)" "outs = Gatekept d # os"
        by (auto simp: admit_all_def admit_def split: prod.splits)
      from Cons.IH [OF os(1)] Cons.prems(2) True nd os(2) show ?thesis by simp
    next
      case ng: False
      obtain res h1 where ld: "load reqFn h d = (res, h1)" by (cases "load reqFn h d")
      show ?thesis
      proof (cases res)
        case (Inl e)
        with nd ng ld Cons.prems(1) obtain os where
          os: "admit_all config gk reqFn h1 ds = (os, hf)" "outs = Failed d e # os"
          by (auto simp: admit_all_def admit_def split: prod.splits)
        from Cons.prems(2) nd ng ld Inl obtain l3' where
          l3: "map_with (requirePlugin reqFn) (acc @ [(d, e)], h1)
                 (filter (\<lambda>d. \<not> is_disabled config d \<and> \<not> is_gatekept gk d) ds) = (l3', (failed, h'))"
            "l3 = JNull # l3'"
          by (auto simp: requirePlugin_step split: prod.splits)
        from Cons.IH [OF os(1) l3(1)] nd ng os(2) l3(2) show ?thesis by simp
      next
        case (Inr p)
        with nd ng ld Cons.prems(1) obtain os where
          os: "admit_all config gk reqFn h1 ds = (os, hf)" "outs = Admitted d p # os"
          by (auto simp: admit_all_def admit_def split: prod.splits)
        from Cons.prems(2) nd ng ld Inr obtain l3' where
          l3: "map_with (requirePlugin reqFn) (acc, h1)
                 (filter (\<lambda>d. \<not> is_disabled config d \<and> \<not> is_gatekept gk d) ds) = (l3', (failed, h'))"
            "l3 = p # l3'"
          by (auto simp: requirePlugin_step split: prod.splits)
        from ld Inr have "truthy p" using load_Inr_ref by fastforce
        with Cons.IH [OF os(1) l3(1)] nd ng os(2) l3(2) show ?thesis by simp
      qed
    qed
  qed
qed

lemma plugin_loader_outcomes:
  assumes "admit_all config gk reqFn h (bundled @ dynamic) = (outs, hf)"
  shows "plugin_loader config gk reqFn h bundled dynamic =
           \<lparr>initialPlugins = admitted_of outs, gatekeepedPlugins = gatekept_of outs,
            disabledPlugins = disabled_of outs, failedPlugins = failed_of outs, heap_after = hf\<rparr>"
proof -
  let ?l2 = "filter (\<lambda>d. \<not> is_disabled config d \<and> \<not> is_gatekept gk d) (bundled @ dynamic)"
  obtain l3 failed h' where m: "map_with (requirePlugin reqFn) ([], h) ?l2 = (l3, (failed, h'))"
    by (cases "map_with (requirePlugin reqFn) ([], h) ?l2") auto
  have "plugin_loader config gk reqFn h bundled dynamic =
           \<lparr>initialPlugins = filter truthy l3,
            gatekeepedPlugins = filter (\<lambda>d. \<not> is_disabled config d \<and> is_gatekept gk d) (bundled @ dynamic),
            disabledPlugins = filter (is_disabled config) (bundled @ dynamic),
            failedPlugins = failed, heap_after = h'\<rparr>"
    unfolding plugin_loader_def filter_with_checkDisabled filter_with_checkGK
    using m by (simp del: filter_append)
  also have "\<dots> = \<lparr>initialPlugins = admitted_of outs, gatekeepedPlugins = gatekept_of outs,
            disabledPlugins = disabled_of outs, failedPlugins = failed_of outs, heap_after = hf\<rparr>"
    using stages_outcomes [OF assms m] by (simp del: filter_append)
  finally show ?thesis .
qed


lemma outcome_buckets_length:
  "length (admitted_of os) + length (disabled_of os) + length (gatekept_of os) + length (failed_of os)
     = length os"
  by (induction os rule: admitted_of.induct) simp_all

lemma admit_all_descriptors:
  "admit_all config gk reqFn h ds = (outs, hf) \<Longrightarrow> map descriptor_of outs = ds"
  unfolding admit_all_def by (rule map_with_admit_descriptors)

text \<open>
  Claim C1. For every input list (the bundled descriptors followed by the dynamic ones)
  the four collections the loader dispatches are the four buckets of one list of
  outcomes that has exactly one outcome per input descriptor, in the input's order: no
  descriptor is lost and none is counted twice, and the sizes of the four collections
  add up to the size of the input.
\<close>

theorem admission_partition:
  "plugin_loader config gk reqFn h bundled dynamic =
     \<lparr>initialPlugins = admitted_of (fst (admit_all config gk reqFn h (bundled @ dynamic))),
      gatekeepedPlugins = gatekept_of (fst (admit_all config gk reqFn h (bundled @ dynamic))),
      disabledPlugins = disabled_of (fst (admit_all config gk reqFn h (bundled @ dynamic))),
      failedPlugins = failed_of (fst (admit_all config gk reqFn h (bundled @ dynamic))),
      heap_after = snd (admit_all config gk reqFn h (bundled @ dynamic))\<rparr>
   \<and> map descriptor_of (fst (admit_all config gk reqFn h (bundled @ dynamic))) = bundled @ dynamic
   \<and> length (initialPlugins (plugin_loader config gk reqFn h bundled dynamic))
       + length (disabledPlugins (plugin_loader config gk reqFn h bundled dynamic))
       + length (gatekeepedPlugins (plugin_loader config gk reqFn h bundled dynamic))
       + length (failedPlugins (plugin_loader config gk reqFn h bundled dynamic))
       = length (bundled @ dynamic)"
proof -
  obtain outs hf where a: "admit_all config gk reqFn h (bundled @ dynamic) = (outs, hf)"
    by (cases "admit_all config gk reqFn h (bundled @ dynamic)") auto
  have len: "length outs = length (bundled @ dynamic)"
    using admit_all_descriptors [OF a] by (metis length_map)
  show ?thesis
    using plugin_loader_outcomes [OF a] admit_all_descriptors [OF a] outcome_buckets_length [of outs] len
    by (simp add: a)
qed

text \<open>
  The scenario of the specification: \<open>A\<close>, \<open>B\<close> behind the inactive gatekeeper
  \<open>gk_b\<close>, and \<open>C\<close> on the disabled list.
\<close>

theorem admission_partition_witness:
  "initialPlugins (plugin_loader (Some {''C''}) example_gk example_reqFn example_heap [plugin_A] [plugin_B, plugin_C])
     = [JRef 0]
   \<and> gatekeepedPlugins (plugin_loader (Some {''C''}) example_gk example_reqFn example_heap [plugin_A] [plugin_B, plugin_C])
     = [plugin_B]
   \<and> disabledPlugins (plugin_loader (Some {''C''}) example_gk example_reqFn example_heap [plugin_A] [plugin_B, plugin_C])
     = [plugin_C]
   \<and> failedPlugins (plugin_loader (Some {''C''}) example_gk example_reqFn example_heap [plugin_A] [plugin_B, plugin_C])
     = []
   \<and> fst (admit_all (Some {''C''}) example_gk example_reqFn example_heap [plugin_A, plugin_B, plugin_C])
     = [Admitted plugin_A (JRef 0), Gatekept plugin_B, Disabled plugin_C]"
proof -
  have a: "fst (admit_all (Some {''C''}) example_gk example_reqFn example_heap [plugin_A, plugin_B, plugin_C])
     = [Admitted plugin_A (JRef 0), Gatekept plugin_B, Disabled plugin_C]"
    by (simp add: admit_all_def admit_def is_disabled_def is_gatekept_def disabledList_def field_def
        plugin_A_def plugin_B_def plugin_C_def example_gk_def example_reqFn_def example_heap_def
        load_def keys_def js_or_def set_prop_def split: prod.splits)
  show ?thesis
    using admission_partition [of "Some {''C''}" example_gk example_reqFn example_heap "[plugin_A]" "[plugin_B, plugin_C]"]
    by (simp add: a)
qed

section \<open>The disable check comes first\<close>

lemma plugin_loader_buckets:
  "plugin_loader config gk reqFn h bundled dynamic =
     \<lparr>initialPlugins = admitted_of (fst (admit_all config gk reqFn h (bundled @ dynamic))),
      gatekeepedPlugins = gatekept_of (fst (admit_all config gk reqFn h (bundled @ dynamic))),
      disabledPlugins = disabled_of (fst (admit_all config gk reqFn h (bundled @ dynamic))),
      failedPlugins = failed_of (fst (admit_all config gk reqFn h (bundled @ dynamic))),
      heap_after = snd (admit_all config gk reqFn h (bundled @ dynamic))\<rparr>"
  using plugin_loader_outcomes [of config gk reqFn h bundled dynamic]
  by (cases "admit_all config gk reqFn h (bundled @ dynamic)") simp

lemma map_with_admit_sound:
  "map_with (admit config gk reqFn) h ds = (outs, hf) \<Longrightarrow> out \<in> set outs \<Longrightarrow>
     (case out of
        Disabled d \<Rightarrow> is_disabled config d
      | Gatekept d \<Rightarrow> \<not> is_disabled config d \<and> is_gatekept gk d
      | Failed d e \<Rightarrow> \<not> is_disabled config d \<and> \<not> is_gatekept gk d
      | Admitted d p \<Rightarrow> \<not> is_disabled config d \<and> \<not> is_gatekept gk d)"
proof (induction ds arbitrary: h outs)
  case Nil
  then show ?case by simp
next
  case (Cons d ds)
  obtain o1 h1 where a: "admit config gk reqFn h d = (o1, h1)"
    by (cases "admit config gk reqFn h d") auto
  obtain os where b: "map_with (admit config gk reqFn) h1 ds = (os, hf)" and c: "outs = o1 # os"
    using Cons.prems(1) a by (auto split: prod.splits)
  show ?case
  proof (cases "out = o1")
    case True
    with a show ?thesis
      by (auto simp: admit_def split: if_splits prod.splits sum.splits)
  next
    case False
    with Cons.prems(2) c have "out \<in> set os" by simp
    from Cons.IH [OF b this] show ?thesis .
  qed
qed

lemma in_disabled_of: "d \<in> set (disabled_of os) \<longleftrightarrow> Disabled d \<in> set os"
  by (induction os rule: disabled_of.induct) auto

lemma in_gatekept_of: "d \<in> set (gatekept_of os) \<longleftrightarrow> Gatekept d \<in> set os"
  by (induction os rule: gatekept_of.induct) auto

lemma in_failed_of: "(d, e) \<in> set (failed_of os) \<longleftrightarrow> Failed d e \<in> set os"
  by (induction os rule: failed_of.induct) auto

lemma in_admitted_of: "Admitted d p \<in> set os \<Longrightarrow> p \<in> set (admitted_of os)"
  by (induction os rule: admitted_of.induct) auto

lemma outcome_for_descriptor:
  "map descriptor_of outs = ds \<Longrightarrow> d \<in> set ds \<Longrightarrow> \<exists>out \<in> set outs. descriptor_of out = d"
  by (induction outs arbitrary: ds) auto

lemma fst_checkDisabled: "fst (checkDisabled config acc d) = (\<not> is_disabled config d)"
  by (simp add: checkDisabled_def is_disabled_def)

lemma fst_checkGK: "fst (checkGK gk acc d) = (\<not> is_gatekept gk d)"
  by (simp add: checkGK_def is_gatekept_def)

text \<open>
  Claim C3. A descriptor of the input whose name is on the disabled list (whatever its
  gatekeeper key and whatever the gatekeeper answers for it) is reported as disabled and
  is not in the gatekept list, nor in the failed list: \<^verbatim>\<open>checkDisabled\<close> has filtered it out
  of the list that \<^verbatim>\<open>checkGK\<close> runs over, and the gatekept list is computed from that
  filtered list alone.
\<close>

theorem disabled_before_gatekeeper:
  assumes "d \<in> set (bundled @ dynamic)" and "is_disabled config d"
  shows "d \<in> set (disabledPlugins (plugin_loader config gk reqFn h bundled dynamic))
       \<and> d \<notin> set (gatekeepedPlugins (plugin_loader config gk reqFn h bundled dynamic))
       \<and> d \<notin> fst ` set (failedPlugins (plugin_loader config gk reqFn h bundled dynamic))
       \<and> d \<notin> set (fst (filter_with (checkDisabled config) [] (bundled @ dynamic)))
       \<and> gatekeepedPlugins (plugin_loader config gk reqFn h bundled dynamic)
           = snd (filter_with (checkGK gk) [] (fst (filter_with (checkDisabled config) [] (bundled @ dynamic))))"
proof -
  obtain outs hf where a: "admit_all config gk reqFn h (bundled @ dynamic) = (outs, hf)"
    by (cases "admit_all config gk reqFn h (bundled @ dynamic)") auto
  note R = plugin_loader_outcomes [OF a]
  from a have m: "map_with (admit config gk reqFn) h (bundled @ dynamic) = (outs, hf)"
    by (simp add: admit_all_def)
  from outcome_for_descriptor [OF admit_all_descriptors [OF a] assms(1)]
  obtain out where out: "out \<in> set outs" "descriptor_of out = d" by blast
  from map_with_admit_sound [OF m out(1)] out(2) assms(2) have "out = Disabled d"
    by (cases out) auto
  with out(1) have 1: "d \<in> set (disabled_of outs)" by (simp add: in_disabled_of)
  have 2: "d \<notin> set (gatekept_of outs)"
  proof
    assume "d \<in> set (gatekept_of outs)"
    then have "Gatekept d \<in> set outs" by (simp add: in_gatekept_of)
    from map_with_admit_sound [OF m this] assms(2) show False by simp
  qed
  have 3: "d \<notin> fst ` set (failed_of outs)"
  proof
    assume "d \<in> fst ` set (failed_of outs)"
    then obtain e where "(d, e) \<in> set (failed_of outs)" by auto
    then have "Failed d e \<in> set outs" by (simp add: in_failed_of)
    from map_with_admit_sound [OF m this] assms(2) show False by simp
  qed
  have 4: "d \<notin> set (fst (filter_with (checkDisabled config) [] (bundled @ dynamic)))"
    using assms(2) by (simp add: filter_with_checkDisabled del: filter_append)
  have 5: "gatekeepedPlugins (plugin_loader config gk reqFn h bundled dynamic)
           = snd (filter_with (checkGK gk) [] (fst (filter_with (checkDisabled config) [] (bundled @ dynamic))))"
    by (simp add: plugin_loader_def split: prod.splits)
  from 1 2 3 4 5 show ?thesis by (simp add: R)
qed

text \<open>A descriptor that is both on the disabled list and behind an inactive gatekeeper.\<close>

theorem disabled_before_gatekeeper_witness:
  "plugin_C_gated \<in> set ([plugin_A] @ [plugin_C_gated]) \<and> is_disabled (Some {''C''}) plugin_C_gated
   \<and> is_gatekept example_gk plugin_C_gated
   \<and> disabledPlugins (plugin_loader (Some {''C''}) example_gk example_reqFn example_heap [plugin_A] [plugin_C_gated])
       = [plugin_C_gated]
   \<and> gatekeepedPlugins (plugin_loader (Some {''C''}) example_gk example_reqFn example_heap [plugin_A] [plugin_C_gated])
       = []"
proof -
  have 1: "plugin_C_gated \<in> set ([plugin_A] @ [plugin_C_gated])" by simp
  have 2: "is_disabled (Some {''C''}) plugin_C_gated"
    by (simp add: is_disabled_def disabledList_def field_def plugin_C_gated_def)
  have 3: "is_gatekept example_gk plugin_C_gated"
    by (simp add: is_gatekept_def field_def plugin_C_gated_def example_gk_def)
  have a: "fst (admit_all (Some {''C''}) example_gk example_reqFn example_heap [plugin_A, plugin_C_gated])
     = [Admitted plugin_A (JRef 0), Disabled plugin_C_gated]"
    by (simp add: admit_all_def admit_def is_disabled_def is_gatekept_def disabledList_def field_def
        plugin_A_def plugin_C_gated_def example_gk_def example_reqFn_def example_heap_def
        load_def keys_def js_or_def set_prop_def split: prod.splits)
  have 4: "disabledPlugins (plugin_loader (Some {''C''}) example_gk example_reqFn example_heap [plugin_A] [plugin_C_gated])
       = [plugin_C_gated]"
    by (simp add: plugin_loader_buckets a)
  have 7: "gatekeepedPlugins (plugin_loader (Some {''C''}) example_gk example_reqFn example_heap [plugin_A] [plugin_C_gated]) = []"
    by (simp add: plugin_loader_buckets a)
  from disabled_before_gatekeeper [OF 1 2, of example_gk example_reqFn example_heap] 2 3 4 7
  show ?thesis by simp
qed

section \<open>A descriptor that sets \<open>id\<close>\<close>

lemma set_statics_id: "''id'' \<in> set ks \<Longrightarrow> \<exists>e. fst (set_statics d ks r h) = Some e"
  by (induction ks arbitrary: h) auto

lemma load_id_fails: "''id'' \<in> set (keys d) \<Longrightarrow> \<exists>e. fst (load reqFn h d) = Inl e"
proof -
  assume k: "''id'' \<in> set (keys d)"
  show ?thesis
  proof (cases "reqFn (field d ''out'')")
    case (Inl msg)
    then show ?thesis by (simp add: load_def)
  next
    case (Inr m)
    define plugin where "plugin = (if truthy (get_prop h m ''default'') then get_prop h m ''default'' else m)"
    show ?thesis
    proof (cases plugin)
      case (JRef r)
      obtain res h' where s: "set_statics d (keys d) r h = (res, h')"
        by (cases "set_statics d (keys d) r h") auto
      with set_statics_id [OF k, of d r h] obtain e where "res = Some e" by auto
      with s Inr JRef show ?thesis
        by (simp add: load_def plugin_def [symmetric] Let_def)
    qed (use Inr in \<open>simp_all add: load_def plugin_def [symmetric] Let_def\<close>)
  qed
qed

lemma map_with_admit_id:
  "map_with (admit config gk reqFn) h ds = (outs, hf) \<Longrightarrow> ''id'' \<in> set (keys d) \<Longrightarrow>
     Admitted d p \<notin> set outs"
proof (induction ds arbitrary: h outs)
  case Nil
  then show ?case by simp
next
  case (Cons x ds)
  obtain o1 h1 where a: "admit config gk reqFn h x = (o1, h1)"
    by (cases "admit config gk reqFn h x") auto
  obtain os where b: "map_with (admit config gk reqFn) h1 ds = (os, hf)" and c: "outs = o1 # os"
    using Cons.prems(1) a by (auto split: prod.splits)
  have "o1 \<noteq> Admitted d p"
  proof
    assume "o1 = Admitted d p"
    with a have "x = d" and "\<exists>h'. load reqFn h d = (Inr p, h')"
      by (auto simp: admit_def split: if_splits prod.splits sum.splits)
    with load_id_fails [OF Cons.prems(2), of reqFn h] show False by auto
  qed
  with Cons.IH [OF b Cons.prems(2)] c show ?case by simp
qed

text \<open>
  Claim C4, as amended. A descriptor that sets \<open>id\<close> is never admitted: its load step
  returns \<^verbatim>\<open>null\<close> and adds the descriptor, with an error, to the failed list. It is in the
  failed list of the pipeline when it reaches the load step, that is, when it is neither
  disabled nor gatekept. The failure is a value of the load step, so the other descriptors
  are processed as usual: every input descriptor still has its outcome.
\<close>

theorem id_in_manifest_fails:
  assumes "''id'' \<in> set (keys d)"
  shows "fst (requirePlugin reqFn (failed, h0) d) = JNull
       \<and> (\<exists>e. fst (snd (requirePlugin reqFn (failed, h0) d)) = failed @ [(d, e)])
       \<and> Admitted d p \<notin> set (fst (admit_all config gk reqFn h (bundled @ dynamic)))
       \<and> (d \<in> set (bundled @ dynamic) \<and> \<not> is_disabled config d \<and> \<not> is_gatekept gk d
            \<longrightarrow> d \<in> fst ` set (failedPlugins (plugin_loader config gk reqFn h bundled dynamic)))
       \<and> map descriptor_of (fst (admit_all config gk reqFn h (bundled @ dynamic))) = bundled @ dynamic"
proof -
  obtain outs hf where a: "admit_all config gk reqFn h (bundled @ dynamic) = (outs, hf)"
    by (cases "admit_all config gk reqFn h (bundled @ dynamic)") auto
  from a have m: "map_with (admit config gk reqFn) h (bundled @ dynamic) = (outs, hf)"
    by (simp add: admit_all_def)
  from load_id_fails [OF assms, of reqFn h0] obtain e h1 where l: "load reqFn h0 d = (Inl e, h1)"
    by (cases "load reqFn h0 d") auto
  have 1: "fst (requirePlugin reqFn (failed, h0) d) = JNull"
    and 2: "\<exists>e. fst (snd (requirePlugin reqFn (failed, h0) d)) = failed @ [(d, e)]"
    using l by (simp_all add: requirePlugin_step)
  have 3: "Admitted d p \<notin> set outs" for p
    by (rule map_with_admit_id [OF m assms])
  have 4: "d \<in> fst ` set (failed_of outs)"
    if "d \<in> set (bundled @ dynamic)" "\<not> is_disabled config d" "\<not> is_gatekept gk d"
  proof -
    from outcome_for_descriptor [OF admit_all_descriptors [OF a] that(1)]
    obtain out where out: "out \<in> set outs" "descriptor_of out = d" by blast
    from map_with_admit_sound [OF m out(1)] out that(2,3) 3 obtain e' where "out = Failed d e'"
      by (cases out) auto
    with out(1) have "(d, e') \<in> set (failed_of outs)" by (simp add: in_failed_of)
    then show ?thesis by force
  qed
  from 1 2 3 4 admit_all_descriptors [OF a] show ?thesis
    by (simp add: plugin_loader_buckets a)
qed

theorem id_in_manifest_fails_witness:
  "''id'' \<in> set (keys plugin_A_with_id)
   \<and> plugin_A_with_id \<in> set ([plugin_A_with_id] @ [plugin_B])
   \<and> \<not> is_disabled (Some {''C''}) plugin_A_with_id \<and> \<not> is_gatekept example_gk plugin_A_with_id
   \<and> failedPlugins (plugin_loader (Some {''C''}) example_gk example_reqFn example_heap [plugin_A_with_id] [plugin_B])
       = [(plugin_A_with_id, IdNotAllowed)]
   \<and> initialPlugins (plugin_loader (Some {''C''}) example_gk example_reqFn example_heap [plugin_A_with_id] [plugin_B])
       = []"
proof -
  have 1: "''id'' \<in> set (keys plugin_A_with_id)"
    by (simp add: keys_def plugin_A_with_id_def)
  have a: "fst (admit_all (Some {''C''}) example_gk example_reqFn example_heap [plugin_A_with_id, plugin_B])
     = [Failed plugin_A_with_id IdNotAllowed, Gatekept plugin_B]"
    by (simp add: admit_all_def admit_def is_disabled_def is_gatekept_def disabledList_def field_def
        plugin_A_with_id_def plugin_B_def example_gk_def example_reqFn_def example_heap_def
        load_def keys_def js_or_def set_prop_def split: prod.splits)
  have 2: "\<not> is_disabled (Some {''C''}) plugin_A_with_id" "\<not> is_gatekept example_gk plugin_A_with_id"
    by (simp_all add: is_disabled_def is_gatekept_def disabledList_def field_def plugin_A_with_id_def)
  from id_in_manifest_fails [OF 1, of example_reqFn "[]" example_heap "JRef 0" "Some {''C''}" example_gk
      example_heap "[plugin_A_with_id]" "[plugin_B]"] 1 2
  show ?thesis by (simp add: plugin_loader_buckets a)
qed

text \<open>
  The claim as it was stated fails for a descriptor that sets \<open>id\<close> and is on the disabled
  list: it is reported as disabled, and the failed list stays empty.
\<close>

theorem id_in_manifest_disabled_counterexample:
  "''id'' \<in> set (keys plugin_C_with_id)
   \<and> disabledPlugins (plugin_loader (Some {''C''}) example_gk example_reqFn example_heap [] [plugin_C_with_id])
       = [plugin_C_with_id]
   \<and> failedPlugins (plugin_loader (Some {''C''}) example_gk example_reqFn example_heap [] [plugin_C_with_id])
       = []"
proof -
  have a: "fst (admit_all (Some {''C''}) example_gk example_reqFn example_heap [plugin_C_with_id])
     = [Disabled plugin_C_with_id]"
    by (simp add: admit_all_def admit_def is_disabled_def disabledList_def field_def
        plugin_C_with_id_def split: prod.splits)
  show ?thesis
    by (simp add: plugin_loader_buckets a) (simp add: keys_def plugin_C_with_id_def)
qed

section \<open>Backfilling the class from the descriptor\<close>

lemma js_or_idem: "js_or (js_or a b) b = js_or a b"
  by (simp add: js_or_def)

lemma props_set_prop:
  "props (set_prop h r key v r') k = (if r' = r \<and> k = key then v else props (h r') k)"
  by (simp add: set_prop_def)

lemma extends_base_set_prop: "extends_base (set_prop h r key v r') = extends_base (h r')"
  by (simp add: set_prop_def)

lemma readonly_set_prop: "readonly (set_prop h r key v r') = readonly (h r')"
  by (simp add: set_prop_def)

lemma set_statics_props:
  "set_statics d ks r h = (None, h') \<Longrightarrow>
     props (h' r) key =
       (if key = ''id'' then
          (if ''name'' \<in> set ks then js_or (props (h r) ''id'') (field d ''name'') else props (h r) ''id'')
        else if key \<in> set ks \<and> key \<noteq> ''name'' then js_or (props (h r) key) (field d key)
        else props (h r) key)"
proof (induction ks arbitrary: h)
  case Nil
  then show ?case by simp
next
  case (Cons k ks)
  show ?case
  proof (cases "k = ''name''")
    case True
    with Cons.prems have "set_statics d ks r (set_prop h r ''id'' (js_or (props (h r) ''id'') (field d ''name''))) = (None, h')"
      by (simp split: if_splits)
    from Cons.IH [OF this] True show ?thesis
      by (simp add: props_set_prop js_or_idem)
  next
    case False
    with Cons.prems have nid: "k \<noteq> ''id''" by auto
    with False Cons.prems have "set_statics d ks r (set_prop h r k (js_or (props (h r) k) (field d k))) = (None, h')"
      by (simp split: if_splits)
    from Cons.IH [OF this] False nid show ?thesis
      by (auto simp add: props_set_prop js_or_idem)
  qed
qed

lemma set_statics_other:
  "r' \<noteq> r \<Longrightarrow> snd (set_statics d ks r h) r' = h r'"
  by (induction ks arbitrary: h) (auto simp: set_prop_def)

lemma load_Inr_statics:
  assumes "load reqFn h d = (Inr (JRef r), h')"
  shows "set_statics d (keys d) r h = (None, h')"
proof -
  obtain m where m: "reqFn (field d ''out'') = Inr m"
    using assms by (cases "reqFn (field d ''out'')") (auto simp: load_def)
  define plugin where "plugin = (if truthy (get_prop h m ''default'') then get_prop h m ''default'' else m)"
  from assms m show ?thesis
    by (cases plugin)
      (auto simp: load_def plugin_def [symmetric] Let_def split: if_splits prod.splits option.splits)
qed

text \<open>
  Claim C5, as amended. When the load succeeds with the class \<open>r\<close>, every field the
  descriptor carries, other than \<open>name\<close> (and \<open>id\<close>, which makes the load fail), ends as
  \<^verbatim>\<open>plugin[key] || pluginDefinition[key]\<close>: a truthy value of the class is kept, and the
  descriptor's value is copied when the value of the class is falsy, that is absent,
  \<^verbatim>\<open>null\<close>, \<^verbatim>\<open>false\<close>, \<^verbatim>\<open>0\<close> or the empty string. A field the descriptor does not carry,
  other than \<open>id\<close>, is left as it was.
\<close>

theorem backfill_only_falsy:
  assumes "load reqFn h d = (Inr (JRef r), h')" and "key \<noteq> ''name''" and "key \<noteq> ''id''"
  shows "(key \<in> set (keys d) \<and> truthy (props (h r) key) \<longrightarrow> props (h' r) key = props (h r) key)
       \<and> (key \<in> set (keys d) \<and> \<not> truthy (props (h r) key) \<longrightarrow> props (h' r) key = field d key)
       \<and> (key \<notin> set (keys d) \<longrightarrow> props (h' r) key = props (h r) key)"
  using set_statics_props [OF load_Inr_statics [OF assms(1)], of key] assms(2,3)
  by (simp add: js_or_def)

theorem backfill_only_falsy_witness:
  "fst (load example_reqFn example_heap plugin_A_versioned) = Inr (JRef 0)
   \<and> ''version'' \<in> set (keys plugin_A_versioned)
   \<and> \<not> truthy (props (example_heap 0) ''version'')
   \<and> props (snd (load example_reqFn example_heap plugin_A_versioned) 0) ''version'' = JNum 2"
proof -
  have l: "fst (load example_reqFn example_heap plugin_A_versioned) = Inr (JRef 0)"
    by (simp add: load_def example_reqFn_def example_heap_def plugin_A_versioned_def field_def keys_def
        set_prop_def js_or_def split: prod.splits)
  then have l': "load example_reqFn example_heap plugin_A_versioned
      = (Inr (JRef 0), snd (load example_reqFn example_heap plugin_A_versioned))"
    by (metis prod.collapse)
  have k: "''version'' \<in> set (keys plugin_A_versioned)"
    by (simp add: keys_def plugin_A_versioned_def)
  have f: "\<not> truthy (props (example_heap 0) ''version'')"
    by (simp add: example_heap_def)
  have v: "field plugin_A_versioned ''version'' = JNum 2"
    by (simp add: field_def plugin_A_versioned_def)
  from backfill_only_falsy [OF l', of "''version''"] l k f v show ?thesis by simp
qed

text \<open>
  The claim as it was stated fails when the class declares a falsy value: a class that
  declares \<^verbatim>\<open>version = 0\<close>, loaded for a descriptor with \<^verbatim>\<open>version: 2\<close>, ends with
  \<^verbatim>\<open>version = 2\<close>.
\<close>

theorem backfill_overrides_declared_zero_counterexample:
  "fst (load example_reqFn heap_version_zero plugin_A_versioned) = Inr (JRef 0)
   \<and> props (heap_version_zero 0) ''version'' = JNum 0
   \<and> props (snd (load example_reqFn heap_version_zero plugin_A_versioned) 0) ''version'' = JNum 2"
  by (simp add: load_def example_reqFn_def heap_version_zero_def plugin_A_versioned_def field_def keys_def
      js_or_def set_prop_def split: prod.splits)

section \<open>The identity of an admitted class\<close>

lemma set_statics_same_id:
  "truthy (props (h r') ''id'') \<Longrightarrow> props (snd (set_statics d ks r h) r') ''id'' = props (h r') ''id''"
proof (induction ks arbitrary: h)
  case Nil
  then show ?case by simp
next
  case (Cons k ks)
  show ?case
  proof (cases "k = ''name''")
    case True
    show ?thesis
    proof (cases "''id'' \<in> readonly (h r)")
      case True
      with \<open>k = ''name''\<close> show ?thesis by simp
    next
      case False
      let ?h1 = "set_prop h r ''id'' (js_or (props (h r) ''id'') (field d ''name''))"
      have eq: "props (?h1 r') ''id'' = props (h r') ''id''"
        using Cons.prems by (auto simp add: props_set_prop js_or_def)
      with Cons.prems have "truthy (props (?h1 r') ''id'')" by simp
      with Cons.IH [of ?h1] eq False \<open>k = ''name''\<close> show ?thesis by simp
    qed
  next
    case False
    show ?thesis
    proof (cases "k = ''id'' \<or> k \<in> readonly (h r)")
      case True
      with False show ?thesis by auto
    next
      case w: False
      let ?h1 = "set_prop h r k (js_or (props (h r) k) (field d k))"
      have eq: "props (?h1 r') ''id'' = props (h r') ''id''"
        using w by (auto simp add: props_set_prop)
      with Cons.prems have "truthy (props (?h1 r') ''id'')" by simp
      with Cons.IH [of ?h1] eq False w show ?thesis by simp
    qed
  qed
qed

lemma set_statics_keeps_id:
  "truthy (props (h r') ''id'') \<Longrightarrow> truthy (props (snd (set_statics d ks r h) r') ''id'')"
  by (simp add: set_statics_same_id)

lemma load_same_id:
  assumes "truthy (props (h r') ''id'')"
  shows "props (snd (load reqFn h d) r') ''id'' = props (h r') ''id''"
proof (cases "reqFn (field d ''out'')")
  case (Inl msg)
  then show ?thesis by (simp add: load_def)
next
  case (Inr m)
  define plugin where "plugin = (if truthy (get_prop h m ''default'') then get_prop h m ''default'' else m)"
  show ?thesis
  proof (cases plugin)
    case (JRef r)
    from set_statics_same_id [where h = h and r' = r' and d = d and ks = "keys d" and r = r] Inr JRef assms
    show ?thesis
      by (auto simp add: load_def plugin_def [symmetric] Let_def split: prod.splits option.splits)
  qed (use Inr in \<open>simp_all add: load_def plugin_def [symmetric] Let_def\<close>)
qed

lemma admit_same_id:
  "truthy (props (h r') ''id'') \<Longrightarrow> props (snd (admit config gk reqFn h d) r') ''id'' = props (h r') ''id''"
  using load_same_id [of h r' reqFn d]
  by (auto simp: admit_def split: prod.splits sum.splits)

lemma map_with_admit_same_id:
  "map_with (admit config gk reqFn) h ds = (outs, hf) \<Longrightarrow> truthy (props (h r') ''id'')
     \<Longrightarrow> props (hf r') ''id'' = props (h r') ''id''"
proof (induction ds arbitrary: h outs)
  case Nil
  then show ?case by simp
next
  case (Cons x ds)
  obtain o1 h1 where a: "admit config gk reqFn h x = (o1, h1)"
    by (cases "admit config gk reqFn h x") auto
  obtain os where b: "map_with (admit config gk reqFn) h1 ds = (os, hf)"
    using Cons.prems(1) a by (auto split: prod.splits)
  from admit_same_id [where h = h and r' = r' and config = config and gk = gk and reqFn = reqFn and d = x]
    Cons.prems(2) a
  have eq: "props (h1 r') ''id'' = props (h r') ''id''"
    by simp
  with Cons.prems(2) have "truthy (props (h1 r') ''id'')" by simp
  from Cons.IH [OF b this] eq show ?case by simp
qed

lemma map_with_append:
  "map_with f s (xs @ ys) =
     (case map_with f s xs of (as, s1) \<Rightarrow>
        (case map_with f s1 ys of (bs, s2) \<Rightarrow> (as @ bs, s2)))"
  by (induction xs arbitrary: s) (auto split: prod.splits)

lemma load_id_after:
  assumes "load reqFn h d = (Inr p, h')" and "''name'' \<in> set (keys d)"
  shows "\<exists>r. p = JRef r \<and> props (h' r) ''id'' = js_or (props (h r) ''id'') (field d ''name'')"
proof -
  from load_Inr_ref [OF assms(1)] obtain r where r: "p = JRef r" by blast
  from set_statics_props [OF load_Inr_statics [OF assms(1) [unfolded r]], of "''id''"] assms(2)
  have "props (h' r) ''id'' = js_or (props (h r) ''id'') (field d ''name'')" by simp
  with r show ?thesis by simp
qed

text \<open>
  Claim C9, as amended. Take a descriptor \<open>d\<close> of the input that carries \<open>name\<close> and is
  admitted with the class \<open>p\<close>, when the descriptors before it have been processed. The
  class is among the plugins the pipeline returns, and the load step leaves its \<open>id\<close> as
  \<^verbatim>\<open>plugin.id || pluginDefinition.name\<close>: the \<open>id\<close> the class had, when that is truthy,
  and the descriptor's name otherwise (so with the empty name and no \<open>id\<close> of its own the
  class is left with the empty name as its \<open>id\<close>). When the name is a non-empty string that
  value is non-empty, and it is still the \<open>id\<close> of the class when the whole pipeline has
  run: no later load of the same class changes it.
\<close>

theorem admitted_has_id:
  assumes "bundled @ dynamic = pre @ d # post"
    and "fst (admit config gk reqFn (snd (admit_all config gk reqFn h pre)) d) = Admitted d p"
    and "''name'' \<in> set (keys d)"
  shows "p \<in> set (initialPlugins (plugin_loader config gk reqFn h bundled dynamic))
       \<and> (\<exists>r. p = JRef r
              \<and> props (snd (load reqFn (snd (admit_all config gk reqFn h pre)) d) r) ''id''
                  = js_or (props (snd (admit_all config gk reqFn h pre) r) ''id'') (field d ''name'')
              \<and> (truthy (field d ''name'') \<longrightarrow>
                    props (heap_after (plugin_loader config gk reqFn h bundled dynamic) r) ''id''
                      = js_or (props (snd (admit_all config gk reqFn h pre) r) ''id'') (field d ''name'')
                    \<and> truthy (props (heap_after (plugin_loader config gk reqFn h bundled dynamic) r) ''id'')))"
proof -
  obtain opre hpre where pre: "map_with (admit config gk reqFn) h pre = (opre, hpre)"
    by (cases "map_with (admit config gk reqFn) h pre") auto
  obtain o1 h1 where a: "admit config gk reqFn hpre d = (o1, h1)"
    by (cases "admit config gk reqFn hpre d") auto
  obtain opost hf where post: "map_with (admit config gk reqFn) h1 post = (opost, hf)"
    by (cases "map_with (admit config gk reqFn) h1 post") auto
  from pre have hpre: "snd (admit_all config gk reqFn h pre) = hpre" by (simp add: admit_all_def)
  from assms(2) a hpre have o1: "o1 = Admitted d p" by simp
  from a o1 have l: "load reqFn hpre d = (Inr p, h1)"
    by (auto simp: admit_def split: if_splits prod.splits sum.splits)
  have all: "admit_all config gk reqFn h (bundled @ dynamic) = (opre @ Admitted d p # opost, hf)"
    using pre a post o1 by (simp add: assms(1) admit_all_def map_with_append)
  from load_id_after [OF l assms(3)] obtain r where
    r: "p = JRef r" "props (h1 r) ''id'' = js_or (props (hpre r) ''id'') (field d ''name'')" by blast
  have 1: "p \<in> set (admitted_of (opre @ Admitted d p # opost))"
    by (rule in_admitted_of [of d]) simp
  have 2: "props (snd (load reqFn hpre d) r) ''id'' = js_or (props (hpre r) ''id'') (field d ''name'')"
    using l r(2) by simp
  have 3: "props (hf r) ''id'' = js_or (props (hpre r) ''id'') (field d ''name'')
         \<and> truthy (props (hf r) ''id'')" if "truthy (field d ''name'')"
  proof -
    from that r(2) have t: "truthy (props (h1 r) ''id'')" by (simp add: js_or_def)
    from map_with_admit_same_id [OF post t] r(2) t show ?thesis by simp
  qed
  from 1 2 3 r(1) show ?thesis
    by (auto simp add: plugin_loader_buckets all hpre)
qed

theorem admitted_has_id_witness:
  "[plugin_A] @ [plugin_B] = [] @ plugin_A # [plugin_B]
   \<and> fst (admit (Some {''C''}) example_gk example_reqFn
            (snd (admit_all (Some {''C''}) example_gk example_reqFn example_heap [])) plugin_A)
       = Admitted plugin_A (JRef 0)
   \<and> ''name'' \<in> set (keys plugin_A) \<and> truthy (field plugin_A ''name'')
   \<and> JRef 0 \<in> set (initialPlugins (plugin_loader (Some {''C''}) example_gk example_reqFn example_heap [plugin_A] [plugin_B]))
   \<and> props (heap_after (plugin_loader (Some {''C''}) example_gk example_reqFn example_heap [plugin_A] [plugin_B]) 0) ''id''
       = JStr ''A''"
proof -
  have 1: "[plugin_A] @ [plugin_B] = [] @ plugin_A # [plugin_B]" by simp
  have h0: "snd (admit_all (Some {''C''}) example_gk example_reqFn example_heap []) = example_heap"
    by (simp add: admit_all_def)
  have 2: "fst (admit (Some {''C''}) example_gk example_reqFn
            (snd (admit_all (Some {''C''}) example_gk example_reqFn example_heap [])) plugin_A)
       = Admitted plugin_A (JRef 0)"
    unfolding h0
    by (simp add: admit_def is_disabled_def is_gatekept_def disabledList_def field_def
        plugin_A_def example_reqFn_def example_heap_def
        load_def keys_def js_or_def set_prop_def split: prod.splits)
  have k: "''name'' \<in> set (keys plugin_A)" "truthy (field plugin_A ''name'')"
    "field plugin_A ''name'' = JStr ''A''"
    by (simp_all add: keys_def field_def plugin_A_def)
  have u: "props (example_heap 0) ''id'' = JUndefined" by (simp add: example_heap_def)
  from admitted_has_id [OF 1 2 k(1)] 2 k u show ?thesis
    by (simp add: h0 js_or_def)
qed

text \<open>
  The claim as it was stated fails for a descriptor whose name is the empty string: the
  class is admitted with the empty string as its \<open>id\<close>.
\<close>

theorem admitted_with_empty_id_counterexample:
  "initialPlugins (plugin_loader None example_gk example_reqFn example_heap [] [plugin_unnamed]) = [JRef 0]
   \<and> props (heap_after (plugin_loader None example_gk example_reqFn example_heap [] [plugin_unnamed]) 0) ''id''
       = JStr []"
proof -
  have a: "admit_all None example_gk example_reqFn example_heap [plugin_unnamed]
     = ([Admitted plugin_unnamed (JRef 0)],
        snd (load example_reqFn example_heap plugin_unnamed))"
    by (simp add: admit_all_def admit_def is_disabled_def is_gatekept_def disabledList_def field_def
        plugin_unnamed_def example_reqFn_def example_heap_def
        load_def keys_def js_or_def set_prop_def split: prod.splits)
  have b: "props (snd (load example_reqFn example_heap plugin_unnamed) 0) ''id'' = JStr []"
    by (simp add: load_def example_reqFn_def example_heap_def plugin_unnamed_def field_def keys_def
      js_or_def set_prop_def split: prod.splits)
  show ?thesis by (simp add: plugin_loader_buckets a b)
qed

section \<open>An offline device that is added\<close>

text \<open>
  Claim C10. The handler of the tracker's \<^verbatim>\<open>add\<close> event does nothing for a device whose
  type is \<^verbatim>\<open>offline\<close>: the whole state, and with it the registry, is as before.
\<close>

theorem add_offline_changes_nothing:
  "dev_type device = ''offline'' \<Longrightarrow>
     on_add device s = s \<and> step archive (TrackerAdd device) s = Inr s"
  by (simp add: on_add_def)

theorem add_offline_changes_nothing_witness:
  "dev_type offline_5554 = ''offline''
   \<and> step mark_archived (TrackerAdd offline_5554) connected_state = Inr connected_state
   \<and> devices connected_state = [iphone, AndroidDevice ''emulator-5554'' Emulator (Some ''Pixel_3'')]"
  using add_offline_changes_nothing [of offline_5554 connected_state mark_archived]
  by (simp add: offline_5554_def connected_state_def)

section \<open>A probe that fails\<close>

lemma match_probe_output: "match_avd_name (trim probe_output) = Some ''Pixel_3''"
  by (simp add: match_avd_name_def trim_def probe_output_def white_space_def line_terminators_def
      endsWith_def)

lemma match_no_output: "match_avd_name (trim []) = None"
  by (simp add: match_avd_name_def trim_def white_space_def endsWith_def)

lemma createDevice_type_emulator: "createDevice_type emulator_5554 = Emulator"
  by (simp add: createDevice_type_def emulator_5554_def startsWith_def)

lemma emulator_5554_fields:
  "dev_id emulator_5554 = ''emulator-5554''" "dev_type emulator_5554 = ''device''"
  by (simp_all add: emulator_5554_def)

lemma probe_without_name_falls_back:
  "match_avd_name (trim out) = None \<or> match_avd_name (trim out) = Some [] \<Longrightarrow>
     createDevice_probed device name error (Some out)
       = Resolved (AndroidDevice (dev_id device) (createDevice_type device) name)"
  by (auto simp: createDevice_probed_def getRunningEmulatorName_def or_name_def)

lemma registerDevice_resume_devices:
  "devices (registerDevice_resume a s) =
     filter (\<lambda>device. serial device \<noteq> serial a)
       (filter (\<lambda>device. serial device \<notin>
            set (map serial (filter (\<lambda>device. serial device = serial a \<and> isArchived device) (devices s))))
          (devices s)) @ [a]"
  by (simp add: registerDevice_resume_def registerDevice_resume_with_def track_def Let_def)

lemma registerDevice_resume_inflight: "inflight (registerDevice_resume a s) = inflight s"
  by (simp add: registerDevice_resume_def registerDevice_resume_with_def track_def Let_def)

text \<open>
  Claim C6. \<^verbatim>\<open>child_process.exec\<close> is called with an encoding, so its callback gets the
  output of the probe as a string whatever happened: the empty string when the probe
  timed out, was killed or could not be started, with or without an error. For an
  emulator that is added, whatever the error, when the output holds no name (it does not
  end in the \<^verbatim>\<open>OK\<close> marker, or the line before the marker is empty) the registration
  completes at the probe's callback: the call of \<^verbatim>\<open>registerDevice\<close> is settled, and the
  registry holds the device under its identifier with the \<^verbatim>\<open>ro.product.model\<close> property
  as its name. The callback itself comes after one second at the latest, the timeout
  \<^verbatim>\<open>child_process.exec\<close> is given.
\<close>

theorem probe_failure_falls_back:
  assumes "dev_type device \<noteq> ''offline''" and "createDevice_type device = Emulator"
    and "match_avd_name (trim out) = None \<or> match_avd_name (trim out) = Some []"
  shows "\<exists>s'. run archive
                [TrackerAdd device, PropertiesArrived (length (inflight s)) properties,
                 ProbeCallback (length (inflight s)) error (Some out)] s = Inr s'
           \<and> inflight s' = inflight s @ [(device, Settled)]
           \<and> filter (\<lambda>d. serial d = dev_id device) (devices s')
               = [AndroidDevice (dev_id device) Emulator (properties ''ro.product.model'')]"
proof -
  let ?n = "length (inflight s)"
  let ?a = "AndroidDevice (dev_id device) Emulator (properties ''ro.product.model'')"
  let ?s1 = "s\<lparr>inflight := inflight s @ [(device, AwaitProperties)]\<rparr>"
  let ?s2 = "s\<lparr>inflight := inflight s @ [(device, AwaitProbe (properties ''ro.product.model''))]\<rparr>"
  let ?s3 = "registerDevice_resume ?a (s\<lparr>inflight := inflight s @ [(device, Settled)]\<rparr>)"
  have 1: "step archive (TrackerAdd device) s = Inr ?s1"
    using assms(1) by (simp add: on_add_def registerDevice_def)
  have 2: "step archive (PropertiesArrived ?n properties) ?s1 = Inr ?s2"
    using assms(2) by (simp add: settle_def createDevice_props_def Let_def)
  have 3: "step archive (ProbeCallback ?n error (Some out)) ?s2 = Inr ?s3"
    using probe_without_name_falls_back [OF assms(3), of device "properties ''ro.product.model''" error] assms(2)
    by (simp add: settle_def)
  from 1 2 3 have r: "run archive
                [TrackerAdd device, PropertiesArrived ?n properties, ProbeCallback ?n error (Some out)] s = Inr ?s3"
    by simp
  have i: "inflight ?s3 = inflight s @ [(device, Settled)]"
    by (simp add: registerDevice_resume_inflight)
  have "serial ?a = dev_id device" by (simp add: AndroidDevice_def)
  then have d: "filter (\<lambda>d. serial d = dev_id device) (devices ?s3) = [?a]"
    by (simp add: registerDevice_resume_devices filter_empty_conv)
  from r i d show ?thesis by blast
qed

theorem probe_failure_falls_back_witness:
  "dev_type emulator_5554 \<noteq> ''offline'' \<and> createDevice_type emulator_5554 = Emulator
   \<and> match_avd_name (trim []) = None
   \<and> (\<exists>s'. run mark_archived
                [TrackerAdd emulator_5554, PropertiesArrived 0 example_properties,
                 ProbeCallback 0 (Some ''killed'') (Some [])] initial_state = Inr s'
           \<and> inflight s' = [(emulator_5554, Settled)]
           \<and> filter (\<lambda>d. serial d = ''emulator-5554'') (devices s')
               = [AndroidDevice ''emulator-5554'' Emulator (Some ''sdk_gphone'')])"
proof -
  have 1: "dev_type emulator_5554 \<noteq> ''offline''" by (simp add: emulator_5554_fields)
  have 2: "match_avd_name (trim []) = None \<or> match_avd_name (trim []) = Some []"
    by (simp add: match_no_output)
  have 3: "inflight initial_state = []" by (simp add: initial_state_def)
  have 4: "example_properties ''ro.product.model'' = Some ''sdk_gphone''"
    by (simp add: example_properties_def)
  from probe_failure_falls_back [OF 1 createDevice_type_emulator 2, of mark_archived initial_state
      example_properties "Some ''killed''"]
    1 createDevice_type_emulator match_no_output 3 4
  show ?thesis by (simp add: emulator_5554_fields)
qed

section \<open>What the handlers leave alone\<close>

lemma dispatch_frame:
  "tracked (dispatch a s) = tracked s" "inflight (dispatch a s) = inflight s"
  "timers (dispatch a s) = timers s" "watching (dispatch a s) = watching s"
  "killed (dispatch a s) = killed s"
  by (cases a; simp)+

lemma fold_dispatch_frame:
  "inflight (fold (\<lambda>payload. dispatch (REGISTER_DEVICE payload)) ps s) = inflight s"
  "timers (fold (\<lambda>payload. dispatch (REGISTER_DEVICE payload)) ps s) = timers s"
  "watching (fold (\<lambda>payload. dispatch (REGISTER_DEVICE payload)) ps s) = watching s"
  "killed (fold (\<lambda>payload. dispatch (REGISTER_DEVICE payload)) ps s) = killed s"
  by (induction ps arbitrary: s) simp_all

lemma fold_track_frame:
  "devices (fold (\<lambda>i. track ev i) ids s) = devices s"
  "inflight (fold (\<lambda>i. track ev i) ids s) = inflight s"
  "timers (fold (\<lambda>i. track ev i) ids s) = timers s"
  "watching (fold (\<lambda>i. track ev i) ids s) = watching s"
  "killed (fold (\<lambda>i. track ev i) ids s) = killed s"
  by (induction ids arbitrary: s) (simp_all add: track_def)

lemma registerDevice_resume_frame:
  "inflight (registerDevice_resume a s) = inflight s"
  "timers (registerDevice_resume a s) = timers s"
  "watching (registerDevice_resume a s) = watching s"
  "killed (registerDevice_resume a s) = killed s"
  by (simp_all add: registerDevice_resume_def registerDevice_resume_with_def track_def Let_def)

lemma unregisterDevices_frame:
  "inflight (unregisterDevices archive ids s) = inflight s"
  "timers (unregisterDevices archive ids s) = timers s"
  "watching (unregisterDevices archive ids s) = watching s"
  "killed (unregisterDevices archive ids s) = killed s"
  by (simp_all add: unregisterDevices_def Let_def fold_dispatch_frame fold_track_frame)

section \<open>One handle per identifier\<close>















section \<open>The tracker's error event\<close>

lemma find_serial_distinct:
  "distinct (map serial ds) \<Longrightarrow> d \<in> set ds \<Longrightarrow> find (\<lambda>x. serial x = serial d) ds = Some d"
  by (induction ds) (auto simp: image_iff)

lemma in_map_filter: "y \<in> set (List.map_filter g xs) \<longleftrightarrow> (\<exists>x \<in> set xs. g x = Some y)"
  by (induction xs) (auto simp: List.map_filter_simps split: option.splits)

lemma register_devices_set:
  "set (devices (dispatch (REGISTER_DEVICE p) t)) = {x \<in> set (devices t). serial x \<noteq> serial p} \<union> {p}"
  by auto

lemma fold_register_subset:
  "x \<in> set (devices (fold (\<lambda>payload. dispatch (REGISTER_DEVICE payload)) ps t)) \<Longrightarrow>
     x \<in> set (devices t) \<or> x \<in> set ps"
proof (induction ps arbitrary: t)
  case Nil
  then show ?case by simp
next
  case (Cons p ps)
  from Cons.prems have "x \<in> set (devices (fold (\<lambda>payload. dispatch (REGISTER_DEVICE payload)) ps
      (dispatch (REGISTER_DEVICE p) t)))"
    by (simp del: dispatch.simps)
  from Cons.IH [OF this] show ?case by (auto simp: register_devices_set simp del: dispatch.simps)
qed

lemma fold_register_keeps:
  "x \<in> set (devices t) \<Longrightarrow> \<forall>q \<in> set ps. serial q \<noteq> serial x \<Longrightarrow>
     x \<in> set (devices (fold (\<lambda>payload. dispatch (REGISTER_DEVICE payload)) ps t))"
proof (induction ps arbitrary: t)
  case Nil
  then show ?case by simp
next
  case (Cons p ps)
  from Cons.prems have "x \<in> set (devices (dispatch (REGISTER_DEVICE p) t))"
    by (auto simp: register_devices_set simp del: dispatch.simps)
  from Cons.IH [OF this] Cons.prems(2) show ?case by (simp del: dispatch.simps)
qed

lemma fold_register_adds:
  "p \<in> set ps \<Longrightarrow> \<forall>q \<in> set ps. serial q = serial p \<longrightarrow> q = p \<Longrightarrow>
     p \<in> set (devices (fold (\<lambda>payload. dispatch (REGISTER_DEVICE payload)) ps t))"
proof (induction ps arbitrary: t)
  case Nil
  then show ?case by simp
next
  case (Cons p0 ps)
  show ?case
  proof (cases "p \<in> set ps")
    case True
    with Cons.IH [OF True] Cons.prems(2) show ?thesis by (simp del: dispatch.simps)
  next
    case False
    with Cons.prems have p0: "p0 = p" and ne: "\<forall>q \<in> set ps. serial q \<noteq> serial p" by auto
    have "p \<in> set (devices (dispatch (REGISTER_DEVICE p) t))" by simp
    from fold_register_keeps [OF this ne] p0 show ?thesis by (simp del: dispatch.simps)
  qed
qed

lemma unregisterDevices_devices:
  "devices (unregisterDevices archive ids s) =
     devices (fold (\<lambda>payload. dispatch (REGISTER_DEVICE payload))
       (List.map_filter
          (\<lambda>i. case find (\<lambda>device. serial device = i) (devices s) of
                 Some device \<Rightarrow> if \<not> isArchived device then archive device else None
               | None \<Rightarrow> None) ids)
       (dispatch (UNREGISTER_DEVICES (set ids)) (fold (\<lambda>i. track ''unregister-device'' i) ids s)))"
  by (simp add: unregisterDevices_def Let_def fold_track_frame)

lemma connection_closed_devices:
  assumes dist: "distinct (map serial (devices s))"
    and arch: "\<forall>d. android d \<and> \<not> isArchived d \<longrightarrow>
                 (\<exists>d'. archive d = Some d' \<and> serial d' = serial d \<and> isArchived d')"
  defines "s' \<equiv> unregisterDevices archive (map serial (filter android (devices s))) s"
  shows "\<forall>d \<in> set (devices s). android d \<and> \<not> isArchived d \<longrightarrow>
           (\<exists>d'. archive d = Some d' \<and> d' \<in> set (devices s') \<and> d \<notin> set (devices s'))"
    and "\<forall>x \<in> set (devices s'). android x \<longrightarrow> isArchived x"
proof -
  let ?ds = "devices s"
  let ?ids = "map serial (filter android ?ds)"
  let ?g = "\<lambda>i. case find (\<lambda>device. serial device = i) ?ds of
                 Some device \<Rightarrow> if \<not> isArchived device then archive device else None
               | None \<Rightarrow> None"
  let ?ps = "List.map_filter ?g ?ids"
  let ?t = "dispatch (UNREGISTER_DEVICES (set ?ids)) (fold (\<lambda>i. track ''unregister-device'' i) ?ids s)"
  have s': "devices s' = devices (fold (\<lambda>payload. dispatch (REGISTER_DEVICE payload)) ?ps ?t)"
    unfolding s'_def by (rule unregisterDevices_devices)
  have t: "devices ?t = filter (\<lambda>d. serial d \<notin> set ?ids) ?ds"
    by (simp add: fold_track_frame)
  have g: "?g (serial d) = (if \<not> isArchived d then archive d else None)" if "d \<in> set ?ds" for d
    using find_serial_distinct [OF dist that] by simp
  have ps: "\<exists>e \<in> set ?ds. android e \<and> \<not> isArchived e \<and> archive e = Some q" if "q \<in> set ?ps" for q
  proof -
    from that obtain i where i: "i \<in> set ?ids" "?g i = Some q" by (auto simp: in_map_filter)
    then obtain e where e: "e \<in> set ?ds" "android e" "i = serial e" by auto
    with g [OF e(1)] i(2) show ?thesis by (auto split: if_splits)
  qed
  have ps_archived: "isArchived q" if "q \<in> set ?ps" for q
    using ps [OF that] arch by force
  have not_android: "\<not> android x" if "x \<in> set (devices ?t)" for x
    using that unfolding t by auto
  show "\<forall>x \<in> set (devices s'). android x \<longrightarrow> isArchived x"
  proof (intro ballI impI)
    fix x assume x: "x \<in> set (devices s')" "android x"
    from fold_register_subset [OF x(1) [unfolded s']] not_android x(2) have "x \<in> set ?ps" by blast
    then show "isArchived x" by (rule ps_archived)
  qed
  show "\<forall>d \<in> set (devices s). android d \<and> \<not> isArchived d \<longrightarrow>
           (\<exists>d'. archive d = Some d' \<and> d' \<in> set (devices s') \<and> d \<notin> set (devices s'))"
  proof (intro ballI impI)
    fix d assume d: "d \<in> set (devices s)" "android d \<and> \<not> isArchived d"
    from arch d(2) obtain d' where d': "archive d = Some d'" "serial d' = serial d" "isArchived d'"
      by blast
    from d have id: "serial d \<in> set ?ids" by auto
    from g [OF d(1)] d(2) d'(1) have "?g (serial d) = Some d'" by simp
    with id have in_ps: "d' \<in> set ?ps" unfolding in_map_filter by blast
    have uniq: "\<forall>q \<in> set ?ps. serial q = serial d' \<longrightarrow> q = d'"
    proof (intro ballI impI)
      fix q assume q: "q \<in> set ?ps" "serial q = serial d'"
      from ps [OF q(1)] obtain e where e: "e \<in> set ?ds" "android e" "\<not> isArchived e" "archive e = Some q"
        by blast
      from arch e(2,3,4) have "serial q = serial e" by force
      with q(2) d'(2) have "serial e = serial d" by simp
      with dist e(1) d(1) have "e = d" by (simp add: distinct_map inj_on_def)
      with e(4) d'(1) show "q = d'" by simp
    qed
    from fold_register_adds [OF in_ps uniq] have 1: "d' \<in> set (devices s')" unfolding s' .
    have 2: "d \<notin> set (devices s')"
    proof
      assume "d \<in> set (devices s')"
      from fold_register_subset [OF this [unfolded s']] not_android d(2) have "d \<in> set ?ps" by blast
      from ps_archived [OF this] d(2) show False by simp
    qed
    from d'(1) 1 2 show "\<exists>d'. archive d = Some d' \<and> d' \<in> set (devices s') \<and> d \<notin> set (devices s')"
      by blast
  qed
qed

text \<open>
  Claim C7. An error of the tracker whose message is \<^verbatim>\<open>Connection closed\<close> (the string the
  handler compares with) archives every live Android device of the registry: its handle
  is replaced by what \<^verbatim>\<open>archive()\<close> returns for it, no Android handle that is not archived
  is left, and \<^verbatim>\<open>watchAndroidDevices\<close> is scheduled again with a delay of 500 ms. Any other
  message is thrown again by the handler. The registry has one handle per identifier, as
  in every state the watcher reaches, and \<^verbatim>\<open>archive()\<close> returns, for a live Android
  device, an archived handle with the same identifier.
\<close>

theorem connection_closed_archives_and_restarts:
  assumes "distinct (map serial (devices s))"
    and "\<forall>d. android d \<and> \<not> isArchived d \<longrightarrow>
           (\<exists>d'. archive d = Some d' \<and> serial d' = serial d \<and> isArchived d')"
  shows "(message \<noteq> ''Connection closed'' \<longrightarrow> step archive (TrackerError message) s = Inl message)
       \<and> (\<exists>s'. step archive (TrackerError ''Connection closed'') s = Inr s'
             \<and> timers s' = timers s @ [500]
             \<and> (\<forall>d \<in> set (devices s). android d \<and> \<not> isArchived d \<longrightarrow>
                   (\<exists>d'. archive d = Some d' \<and> d' \<in> set (devices s') \<and> d \<notin> set (devices s')))
             \<and> (\<forall>x \<in> set (devices s'). android x \<longrightarrow> isArchived x))"
proof -
  let ?u = "unregisterDevices archive (map serial (filter android (devices s))) s"
  have 1: "message \<noteq> ''Connection closed'' \<longrightarrow> step archive (TrackerError message) s = Inl message"
    by (simp add: on_error_def)
  have 2: "step archive (TrackerError ''Connection closed'') s = Inr (?u\<lparr>timers := timers ?u @ [500]\<rparr>)"
    by (simp add: on_error_def Let_def)
  have 3: "timers (?u\<lparr>timers := timers ?u @ [500]\<rparr>) = timers s @ [500]"
    by (simp add: unregisterDevices_frame)
  have 4: "devices (?u\<lparr>timers := timers ?u @ [500]\<rparr>) = devices ?u" by simp
  from connection_closed_devices [OF assms] 1 2 3 4 show ?thesis
    by (intro conjI exI [of _ "?u\<lparr>timers := timers ?u @ [500]\<rparr>"]) simp_all
qed

lemma mark_archived_ok:
  "\<forall>d. android d \<and> \<not> isArchived d \<longrightarrow>
      (\<exists>d'. mark_archived d = Some d' \<and> serial d' = serial d \<and> isArchived d')"
  by (simp add: mark_archived_def)

lemma connected_state_distinct: "distinct (map serial (devices connected_state))"
  by (simp add: connected_state_def iphone_def AndroidDevice_def)

theorem connection_closed_archives_and_restarts_witness:
  "distinct (map serial (devices connected_state))
   \<and> step mark_archived (TrackerError ''Connection closed'') connected_state
       = Inr (connected_state
           \<lparr>tracked := [(''unregister-device'', ''emulator-5554'')],
            devices := [iphone, (AndroidDevice ''emulator-5554'' Emulator (Some ''Pixel_3''))\<lparr>isArchived := True\<rparr>],
            timers := [500]\<rparr>)
   \<and> step mark_archived (TrackerError ''ECONNRESET'') connected_state = Inl ''ECONNRESET''"
proof -
  have e: "step mark_archived (TrackerError ''Connection closed'') connected_state
       = Inr (connected_state
           \<lparr>tracked := [(''unregister-device'', ''emulator-5554'')],
            devices := [iphone, (AndroidDevice ''emulator-5554'' Emulator (Some ''Pixel_3''))\<lparr>isArchived := True\<rparr>],
            timers := [500]\<rparr>)"
    by (simp add: on_error_def connected_state_def initial_state_def unregisterDevices_def
        mark_archived_def List.map_filter_def track_def AndroidDevice_def iphone_def Let_def)
  from connection_closed_archives_and_restarts [OF connected_state_distinct mark_archived_ok, of "''ECONNRESET''"]
    connected_state_distinct e
  show ?thesis by simp
qed

section \<open>The cleanup function\<close>

lemma dispatch_killed: "dispatch a (s\<lparr>killed := b\<rparr>) = (dispatch a s)\<lparr>killed := b\<rparr>"
  by (cases a) simp_all

lemma track_killed: "track ev i (s\<lparr>killed := b\<rparr>) = (track ev i s)\<lparr>killed := b\<rparr>"
  by (simp add: track_def)

lemma fold_track_killed:
  "fold (\<lambda>i. track ev i) ids (s\<lparr>killed := b\<rparr>) = (fold (\<lambda>i. track ev i) ids s)\<lparr>killed := b\<rparr>"
  by (induction ids arbitrary: s) (simp_all add: track_killed)

lemma fold_dispatch_killed:
  "fold (\<lambda>payload. dispatch (REGISTER_DEVICE payload)) ps (s\<lparr>killed := b\<rparr>)
     = (fold (\<lambda>payload. dispatch (REGISTER_DEVICE payload)) ps s)\<lparr>killed := b\<rparr>"
  by (induction ps arbitrary: s) (simp_all add: dispatch_killed del: dispatch.simps)

lemma registerDevice_resume_killed:
  "registerDevice_resume a (s\<lparr>killed := b\<rparr>) = (registerDevice_resume a s)\<lparr>killed := b\<rparr>"
  by (simp add: registerDevice_resume_def registerDevice_resume_with_def Let_def track_def)

lemma unregisterDevices_killed:
  "unregisterDevices archive ids (s\<lparr>killed := b\<rparr>) = (unregisterDevices archive ids s)\<lparr>killed := b\<rparr>"
  by (simp add: unregisterDevices_def Let_def fold_track_killed fold_dispatch_killed dispatch_killed
      fold_track_frame del: dispatch.simps)

lemma settle_killed:
  "settle n device p (s\<lparr>killed := b\<rparr>) = (settle n device p s)\<lparr>killed := b\<rparr>"
  by (cases p) (simp_all add: settle_def registerDevice_resume_def registerDevice_resume_with_def Let_def track_def)

lemma step_killed:
  "step archive e (s\<lparr>killed := True\<rparr>)
     = (case step archive e s of Inl err \<Rightarrow> Inl err | Inr s' \<Rightarrow> Inr (s'\<lparr>killed := True\<rparr>))"
proof (cases e)
  case (TrackerError message)
  then show ?thesis by (simp add: on_error_def Let_def unregisterDevices_killed)
next
  case (TrackerAdd device)
  then show ?thesis by (simp add: on_add_def registerDevice_def)
next
  case (TrackerChange device)
  then show ?thesis by (simp add: on_change_def registerDevice_def unregisterDevices_killed)
next
  case (TrackerRemove device)
  then show ?thesis by (simp add: on_remove_def unregisterDevices_killed)
next
  case (PropertiesArrived n properties)
  then show ?thesis by (simp add: settle_killed)
next
  case (ProbeCallback n error data)
  then show ?thesis by (simp add: settle_killed split: phase.splits)
next
  case TimerFired
  then show ?thesis by (simp split: list.splits)
next
  case Cleanup
  then show ?thesis by simp
qed

text \<open>
  Claim C8, as amended. The cleanup function only kills the adb client: it leaves the
  registry and the calls of \<^verbatim>\<open>registerDevice\<close> under way as they are, and no handler reads
  whether it has run, so every later event changes the state as it would have without
  it. A registration that waits for the name probe when the cleanup runs registers its
  device when the probe's callback comes.
\<close>

theorem cleanup_does_not_cancel:
  "step archive Cleanup s = Inr (s\<lparr>killed := True\<rparr>)
   \<and> step archive e (s\<lparr>killed := True\<rparr>)
       = (case step archive e s of Inl err \<Rightarrow> Inl err | Inr s' \<Rightarrow> Inr (s'\<lparr>killed := True\<rparr>))
   \<and> (n < length (inflight s) \<and> inflight s ! n = (device, AwaitProbe name)
        \<and> createDevice_probed device name error data = Resolved a
      \<longrightarrow> (\<exists>s'. run archive [Cleanup, ProbeCallback n error data] s = Inr s'
               \<and> killed s' \<and> a \<in> set (devices s')))"
proof -
  have 3: "\<exists>s'. run archive [Cleanup, ProbeCallback n error data] s = Inr s' \<and> killed s' \<and> a \<in> set (devices s')"
    if "n < length (inflight s)" "inflight s ! n = (device, AwaitProbe name)"
      "createDevice_probed device name error data = Resolved a"
  proof -
    let ?t = "s\<lparr>killed := True, inflight := (inflight s)[n := (device, Settled)]\<rparr>"
    from that have "run archive [Cleanup, ProbeCallback n error data] s = Inr (registerDevice_resume a ?t)"
      by (simp add: settle_def)
    moreover have "killed (registerDevice_resume a ?t)" by (simp add: registerDevice_resume_frame)
    moreover have "a \<in> set (devices (registerDevice_resume a ?t))"
      by (simp add: registerDevice_resume_devices)
    ultimately show ?thesis by blast
  qed
  from 3 step_killed [of archive e s] show ?thesis by simp
qed

lemma probing_state_probe:
  "createDevice_probed emulator_5554 (Some ''sdk_gphone'') None (Some probe_output)
     = Resolved (AndroidDevice ''emulator-5554'' Emulator (Some ''Pixel_3''))"
  by (simp add: createDevice_probed_def getRunningEmulatorName_def match_probe_output or_name_def
      createDevice_type_emulator emulator_5554_fields)

theorem cleanup_does_not_cancel_witness:
  "0 < length (inflight probing_state)
   \<and> inflight probing_state ! 0 = (emulator_5554, AwaitProbe (Some ''sdk_gphone''))
   \<and> createDevice_probed emulator_5554 (Some ''sdk_gphone'') None (Some probe_output)
       = Resolved (AndroidDevice ''emulator-5554'' Emulator (Some ''Pixel_3''))
   \<and> (\<exists>s'. run mark_archived [Cleanup, ProbeCallback 0 None (Some probe_output)] probing_state = Inr s'
         \<and> killed s' \<and> AndroidDevice ''emulator-5554'' Emulator (Some ''Pixel_3'') \<in> set (devices s'))"
proof -
  have 1: "0 < length (inflight probing_state)"
    "inflight probing_state ! 0 = (emulator_5554, AwaitProbe (Some ''sdk_gphone''))"
    by (simp_all add: probing_state_def)
  from cleanup_does_not_cancel [of mark_archived probing_state Cleanup 0 emulator_5554 "Some ''sdk_gphone''"
      None "Some probe_output" "AndroidDevice ''emulator-5554'' Emulator (Some ''Pixel_3'')"]
    1 probing_state_probe
  show ?thesis by simp
qed

text \<open>
  The claim as it was stated fails: the emulator is added and its properties arrive, the
  cleanup runs while the registration waits for the name probe (the registry is empty),
  and when the probe's callback comes the device is registered all the same.
\<close>

theorem registration_after_cleanup_counterexample:
  "run mark_archived
     [TrackerAdd emulator_5554, PropertiesArrived 0 example_properties, Cleanup] initial_state
     = Inr (initial_state\<lparr>inflight := [(emulator_5554, AwaitProbe (Some ''sdk_gphone''))], killed := True\<rparr>)
   \<and> run mark_archived
     [TrackerAdd emulator_5554, PropertiesArrived 0 example_properties, Cleanup,
      ProbeCallback 0 None (Some probe_output)] initial_state
     = Inr (initial_state\<lparr>inflight := [(emulator_5554, Settled)], killed := True,
              tracked := [(''register-device'', ''emulator-5554'')],
              devices := [AndroidDevice ''emulator-5554'' Emulator (Some ''Pixel_3'')]\<rparr>)"
  by (simp add: initial_state_def on_add_def registerDevice_def settle_def createDevice_props_def
      createDevice_probed_def getRunningEmulatorName_def createDevice_type_emulator
      example_properties_def or_name_def registerDevice_resume_def registerDevice_resume_with_def track_def AndroidDevice_def
      match_probe_output Let_def emulator_5554_fields)

end
